theory Spec2Isabelle
  imports Complex_Main "HOL-Library.Log_Nat" "HOL-Library.Multiset" "HOL-Library.Product_Lexorder"
begin

section \<open>The TACRED data loader (data/loader.py)\<close>

text \<open>
  The development follows \<^verbatim>\<open>data/loader.py\<close>. Python integers are unbounded and are
  modelled by \<^typ>\<open>int\<close>; Python lists by HOL lists; every exception the code can raise is
  a value of \<open>py_error\<close>. \<open>TorchError\<close> is the exception that torch raises when a Python
  integer does not fit a cell of a LongTensor or a dimension is negative (a RuntimeError).
\<close>

datatype py_error = TypeError | IndexError | KeyError | ValueError | AssertionError | TorchError

subsection \<open>Python primitives used by the loader\<close>

text \<open>\<^verbatim>\<open>list(range(a, b))\<close> for integers \<open>a\<close>, \<open>b\<close>: empty when \<open>b \<le> a\<close>.\<close>

definition py_range :: "int \<Rightarrow> int \<Rightarrow> int list" where
  "py_range a b = [a..b - 1]"

text \<open>\<^verbatim>\<open>[x] * k\<close>: a non-positive \<open>k\<close> gives the empty list.\<close>

definition py_repeat :: "'a \<Rightarrow> int \<Rightarrow> 'a list" where
  "py_repeat x k = replicate (nat k) x"

subsection \<open>get_positions\<close>

text \<open>
  \<^verbatim>\<open>return list(range(-start_idx, 0)) + [0]*(end_idx - start_idx + 1)
              + list(range(1, length-end_idx))\<close>
\<close>

definition get_positions :: "int \<Rightarrow> int \<Rightarrow> int \<Rightarrow> int list" where
  "get_positions start_idx end_idx length' =
     py_range (- start_idx) 0 @ py_repeat 0 (end_idx - start_idx + 1)
       @ py_range 1 (length' - end_idx)"

subsection \<open>relativate_word_positions\<close>

text \<open>
  \<^verbatim>\<open>math.ceil(math.log(abs(x)+1, 2))\<close>. \<^verbatim>\<open>math.log(n, 2)\<close> is the quotient of two
  double-precision logarithms, \<^verbatim>\<open>log(n)/log(2)\<close>, not the real logarithm. For
  \<open>n\<close> below \<open>2^29\<close> the ceiling of that double is the ceiling of the real logarithm:
  away from the powers of two the real logarithm is farther from an integer than the
  rounding error, and on the powers of two below \<open>2^29\<close> the quotient is the exact
  integer. At \<open>n = 2^29\<close> the quotient is \<open>29.000000000000004\<close> and its ceiling is \<open>30\<close>.
  Beyond \<open>2^29\<close> the model does not fix the double: its ceiling there is the argument
  \<open>beyond\<close>.
\<close>

definition log_ceil :: "(int \<Rightarrow> int) \<Rightarrow> int \<Rightarrow> int" where
  "log_ceil beyond x =
     (let n = \<bar>x\<bar> + 1
      in if n < 2 ^ 29 then \<lceil>log 2 (real_of_int n)\<rceil>
         else if n = 2 ^ 29 then 30
         else beyond n)"

text \<open>
  The loop over \<^verbatim>\<open>enumerate(new_list)\<close>: an element that is zero copies the rest of
  the list (itself included) and leaves the loop, any other element is appended negated.
\<close>

fun negate_until_zero :: "int list \<Rightarrow> int list" where
  "negate_until_zero [] = []"
| "negate_until_zero (element # rest) =
     (if element = 0 then element # rest else (- element) # negate_until_zero rest)"

text \<open>
  The function returns the new list; the second component is what it prints (the line of
  the length check, when that check fails).
\<close>

definition relativate_word_positions ::
    "(int \<Rightarrow> int) \<Rightarrow> int list \<Rightarrow> int list \<times> string list" where
  "relativate_word_positions beyond positions_list =
     (let new_list = map (log_ceil beyond) positions_list;
          new_list_final = negate_until_zero new_list
      in (new_list_final,
          if length positions_list \<noteq> length new_list_final
          then [''Error in positional embeddings!''] else []))"

subsection \<open>More Python primitives\<close>

text \<open>
  The bounds of a slice \<^verbatim>\<open>xs[a:b]\<close> on a list of length \<open>n\<close>: a negative index counts
  from the end, and both ends are clipped to \<open>0 .. n\<close>.
\<close>

definition slice_index :: "int \<Rightarrow> nat \<Rightarrow> nat" where
  "slice_index i n = (if i < 0 then nat (max (i + int n) 0) else min (nat i) n)"

text \<open>Reading a slice, \<^verbatim>\<open>xs[a:b]\<close>.\<close>

definition py_slice :: "'a list \<Rightarrow> int \<Rightarrow> int \<Rightarrow> 'a list" where
  "py_slice xs a b =
     (let lo = slice_index a (length xs); hi = slice_index b (length xs)
      in take (hi - lo) (drop lo xs))"

text \<open>
  Assigning to a slice, \<^verbatim>\<open>xs[a:b] = vs\<close>: the elements from the lower bound up to the
  upper bound (none, when the upper bound is below the lower one) are replaced by \<open>vs\<close>,
  whatever its length.
\<close>

definition slice_assign :: "'a list \<Rightarrow> int \<Rightarrow> int \<Rightarrow> 'a list \<Rightarrow> 'a list" where
  "slice_assign xs a b vs =
     (let lo = slice_index a (length xs); hi = max lo (slice_index b (length xs))
      in take lo xs @ vs @ drop hi xs)"

text \<open>
  \<^verbatim>\<open>str.lower\<close> is a parameter of the model (the field \<open>str_lower\<close> below): Python
  lowers every cased letter of Unicode, and nothing in the loader depends on which
  string it returns. On strings of ASCII characters it is this function, which the
  concrete instances use.
\<close>

definition ascii_lower_char :: "char \<Rightarrow> char" where
  "ascii_lower_char c =
     (let n = (of_char c :: nat) in if 65 \<le> n \<and> n \<le> 90 then char_of (n + 32) else c)"

definition ascii_lower :: "string \<Rightarrow> string" where
  "ascii_lower s = map ascii_lower_char s"

text \<open>\<^verbatim>\<open>max(...)\<close> of a sequence of lengths: ValueError on the empty sequence.\<close>

fun py_max :: "nat list \<Rightarrow> py_error + nat" where
  "py_max [] = Inl ValueError"
| "py_max (x # xs) = Inr (fold max xs x)"

text \<open>
  \<^verbatim>\<open>range(0, n, step)\<close> for \<open>n = len(data)\<close>: ValueError when the step is zero, empty
  when it is negative, and \<open>0, step, 2 step, ...\<close> below \<open>n\<close> otherwise.
\<close>

function range_from :: "nat \<Rightarrow> nat \<Rightarrow> nat \<Rightarrow> nat list" where
  "range_from i n step =
     (if step = 0 \<or> n \<le> i then [] else i # range_from (i + step) n step)"
  by pat_completeness auto
termination
  by (relation "measure (\<lambda>(i, n, step). n - i)") auto

definition py_range_step :: "nat \<Rightarrow> int \<Rightarrow> py_error + nat list" where
  "py_range_step n step =
     (if step = 0 then Inl ValueError
      else if step < 0 then Inr []
      else Inr (range_from 0 n (nat step)))"

text \<open>Sequencing of computations that may raise.\<close>

definition and_then :: "py_error + 'a \<Rightarrow> ('a \<Rightarrow> py_error + 'b) \<Rightarrow> py_error + 'b" where
  "and_then r f = (case r of Inl e \<Rightarrow> Inl e | Inr v \<Rightarrow> f v)"

subsection \<open>The parameters of the model\<close>

text \<open>
  Modelled from the spec: \<^verbatim>\<open>utils/constant.py\<close> and \<^verbatim>\<open>utils/vocab.py\<close> are not
  part of the sources at hand. The loader only looks words and tags up in their tables
  and reads the two ids, so the tables are parameters of the model: \<open>word2id\<close> is
  \<^verbatim>\<open>vocab.word2id\<close>, the others are the constants of the same names.

  The record carries the two library functions that the model leaves open as well:
  \<open>str_lower\<close> is \<^verbatim>\<open>str.lower\<close>, and \<open>ceil_log_beyond\<close> is the ceiling of the double
  \<^verbatim>\<open>math.log(n, 2)\<close> for \<open>n\<close> above \<open>2^29\<close>.
\<close>

record constants =
  word2id :: "string \<rightharpoonup> int"
  POS_TO_ID :: "string \<rightharpoonup> int"
  NER_TO_ID :: "string \<rightharpoonup> int"
  DEPREL_TO_ID :: "string \<rightharpoonup> int"
  LABEL_TO_ID :: "string \<rightharpoonup> int"
  PAD_ID :: int
  UNK_ID :: int
  str_lower :: "string \<Rightarrow> string"
  ceil_log_beyond :: "int \<Rightarrow> int"

text \<open>The module constant \<^verbatim>\<open>PAD = 0\<close> of loader.py.\<close>

definition PAD :: int where
  "PAD = 0"

text \<open>
  \<^verbatim>\<open>ids = [vocab[t] if t in vocab else constant.UNK_ID for t in tokens]\<close>
\<close>

definition map_to_ids :: "int \<Rightarrow> string list \<Rightarrow> (string \<rightharpoonup> int) \<Rightarrow> int list" where
  "map_to_ids unk tokens vocab =
     map (\<lambda>t. case vocab t of Some v \<Rightarrow> v | None \<Rightarrow> unk) tokens"

subsection \<open>Input records and the store\<close>

text \<open>
  \<open>preprocess\<close> writes into the token list of the records it is given, so the token
  lists live in a store: an address is an index into the list of all token lists, a
  record holds the address of its \<^verbatim>\<open>'token'\<close> list, and a new list is allocated at the
  end of the store. The other fields of a record are only read and are held by value.
\<close>

type_synonym addr = nat
type_synonym store = "string list list"

record tacred =
  token :: addr
  subj_start :: int
  subj_end :: int
  obj_start :: int
  obj_end :: int
  subj_type :: string
  obj_type :: string
  stanford_pos :: "string list"
  stanford_ner :: "string list"
  stanford_deprel :: "string list"
  relation :: string

text \<open>
  One preprocessed example, the tuple
  \<^verbatim>\<open>(tokens, pos, ner, deprel, subj_positions, obj_positions, inst_position, relation)\<close>.
\<close>

record example =
  ex_tokens :: "int list"
  ex_pos :: "int list"
  ex_ner :: "int list"
  ex_deprel :: "int list"
  ex_subj_positions :: "int list"
  ex_obj_positions :: "int list"
  ex_inst_position :: "int list"
  ex_relation :: int

subsection \<open>preprocess\<close>

text \<open>
  Lines 57 to 72, on one record \<open>d\<close>: \<^verbatim>\<open>tokens = d['token']\<close> is the record's own
  list; with \<^verbatim>\<open>opt['lower']\<close> the comprehension builds a new list and \<open>tokens\<close>
  names that one; the two slice assignments then write into whatever list \<open>tokens\<close>
  names. The result is the address \<open>tokens\<close> holds and the store.
\<close>

definition anonymize_tokens ::
    "constants \<Rightarrow> bool \<Rightarrow> tacred \<Rightarrow> store \<Rightarrow> addr \<times> store" where
  "anonymize_tokens C lower d st =
     (let tokens = token d;
          (tokens, st) =
            (if lower then (length st, st @ [map (str_lower C) (st ! tokens)])
             else (tokens, st));
          ss = subj_start d; se = subj_end d;
          os = obj_start d; oe = obj_end d;
          st = st[tokens := slice_assign (st ! tokens) ss (se + 1)
                  (py_repeat (''SUBJ-'' @ subj_type d) (se - ss + 1))];
          st = st[tokens := slice_assign (st ! tokens) os (oe + 1)
                  (py_repeat (''OBJ-'' @ obj_type d) (oe - os + 1))]
      in (tokens, st))"

text \<open>
  The body of the loop of \<open>preprocess\<close>. The only exception is the KeyError of
  \<^verbatim>\<open>constant.LABEL_TO_ID[d['relation']]\<close>; it is raised after the token list has been
  written. What \<open>relativate_word_positions\<close> prints is not kept.
\<close>

definition preprocess_one :: "constants \<Rightarrow> bool \<Rightarrow> tacred \<Rightarrow> store \<Rightarrow> (py_error + example) \<times> store" where
  "preprocess_one C lower d st =
     (let (a, st) = anonymize_tokens C lower d st;
          tokens = map_to_ids (UNK_ID C) (st ! a) (word2id C);
          pos = map_to_ids (UNK_ID C) (stanford_pos d) (POS_TO_ID C);
          ner = map_to_ids (UNK_ID C) (stanford_ner d) (NER_TO_ID C);
          deprel = map_to_ids (UNK_ID C) (stanford_deprel d) (DEPREL_TO_ID C);
          l = int (length tokens);
          inst_position =
            map (\<lambda>(pos_i, w_i). if w_i \<noteq> PAD then int pos_i + 1 else 0)
              (zip [0..<length tokens] tokens);
          subj_positions =
            fst (relativate_word_positions (ceil_log_beyond C)
                   (get_positions (subj_start d) (subj_end d) l));
          obj_positions =
            fst (relativate_word_positions (ceil_log_beyond C)
                   (get_positions (obj_start d) (obj_end d) l))
      in case LABEL_TO_ID C (relation d) of
           None \<Rightarrow> (Inl KeyError, st)
         | Some rel \<Rightarrow>
             (Inr \<lparr>ex_tokens = tokens, ex_pos = pos, ex_ner = ner, ex_deprel = deprel,
                   ex_subj_positions = subj_positions, ex_obj_positions = obj_positions,
                   ex_inst_position = inst_position, ex_relation = rel\<rparr>, st))"

text \<open>The loop \<^verbatim>\<open>for d in data\<close>: an exception ends it, with the store as it is then.\<close>

fun preprocess :: "constants \<Rightarrow> bool \<Rightarrow> tacred list \<Rightarrow> store \<Rightarrow> (py_error + example list) \<times> store" where
  "preprocess C lower [] st = (Inr [], st)"
| "preprocess C lower (d # ds) st =
     (case preprocess_one C lower d st of
        (Inl e, st') \<Rightarrow> (Inl e, st')
      | (Inr ex, st') \<Rightarrow>
          (case preprocess C lower ds st' of
             (Inl e, st'') \<Rightarrow> (Inl e, st'')
           | (Inr processed, st'') \<Rightarrow> (Inr (ex # processed), st'')))"

subsection \<open>The loader object and its construction\<close>

text \<open>
  The options the loader reads: \<^verbatim>\<open>opt['lower']\<close> and \<^verbatim>\<open>opt['word_dropout']\<close>. A
  double is a rational number, and the only operation on the dropout rate is a
  comparison, which is exact.
\<close>

record opt =
  opt_lower :: bool
  opt_word_dropout :: rat

text \<open>
  The attributes of a \<open>DataLoader\<close> that the batching code reads. The gold labels
  (\<^verbatim>\<open>self.labels\<close>) and the vocabulary object are left out; the two ids of
  \<^verbatim>\<open>utils.constant\<close> that \<^verbatim>\<open>__getitem__\<close> reaches are kept with the object.
\<close>

record loader =
  self_batch_size :: int
  self_opt :: opt
  self_eval :: bool
  self_num_examples :: nat
  self_data :: "example list list"
  self_PAD_ID :: int
  self_UNK_ID :: int

text \<open>
  \<^verbatim>\<open>[data[i:i+batch_size] for i in range(0, len(data), batch_size)]\<close>
\<close>

definition chunk :: "'a list \<Rightarrow> int \<Rightarrow> py_error + 'a list list" where
  "chunk data' batch_size =
     and_then (py_range_step (length data') batch_size)
       (\<lambda>starts. Inr (map (\<lambda>i. py_slice data' (int i) (int i + batch_size)) starts))"

text \<open>
  \<^verbatim>\<open>__init__\<close>. The parsed JSON file is the list \<open>raw\<close> of records over the store
  \<open>st\<close>. The order that \<^verbatim>\<open>random.shuffle\<close> leaves in \<open>indices\<close> is the argument
  \<open>shuffled\<close>: some arrangement of \<open>0 .. len(data) - 1\<close>.
\<close>

definition DataLoader_init ::
    "constants \<Rightarrow> tacred list \<Rightarrow> int \<Rightarrow> opt \<Rightarrow> bool \<Rightarrow> nat list \<Rightarrow> store
      \<Rightarrow> (py_error + loader) \<times> store" where
  "DataLoader_init C raw batch_size opt' evaluation shuffled st =
     (case preprocess C (opt_lower opt') raw st of
        (Inl e, st') \<Rightarrow> (Inl e, st')
      | (Inr processed, st') \<Rightarrow>
          (let data' = (if \<not> evaluation then map (\<lambda>i. processed ! i) shuffled else processed)
           in (and_then (chunk data' batch_size)
                 (\<lambda>batches. Inr \<lparr>self_batch_size = batch_size, self_opt = opt',
                     self_eval = evaluation, self_num_examples = length data',
                     self_data = batches, self_PAD_ID = PAD_ID C, self_UNK_ID = UNK_ID C\<rparr>),
               st')))"

text \<open>\<^verbatim>\<open>__len__\<close>\<close>

definition DataLoader_len :: "loader \<Rightarrow> nat" where
  "DataLoader_len L = length (self_data L)"

subsection \<open>sort_all\<close>

text \<open>
  \<^verbatim>\<open>sorted(zip(lens, range(len(lens)), *batch), reverse=True)\<close>. The source passes the
  batch by columns and zips them into rows \<open>(len, index, fields ...)\<close>; the model keeps
  the rows: row \<open>i\<close> of \<open>batch\<close> is example \<open>i\<close>. Python compares the rows as tuples,
  from the left; the indices differ pairwise, so a comparison is decided by the pair
  \<open>(len, index)\<close> and never looks at a field, and no two rows compare equal. \<open>zip\<close> stops
  at the shortest argument. With no row at all, \<^verbatim>\<open>sorted_all\<close> is the empty list and
  \<^verbatim>\<open>sorted_all[1]\<close> raises IndexError.
\<close>

definition sort_all :: "'a list \<Rightarrow> nat list \<Rightarrow> py_error + ('a list \<times> nat list)" where
  "sort_all batch lens =
     (let unsorted_all = zip lens (zip [0..<length lens] batch);
          sorted_all = rev (sort_key (\<lambda>(l, i, x). (l, i)) unsorted_all)
      in if sorted_all = [] then Inl IndexError
         else Inr (map (\<lambda>(l, i, x). x) sorted_all, map (\<lambda>(l, i, x). i) sorted_all))"

subsection \<open>word_dropout\<close>

text \<open>
  \<^verbatim>\<open>np.random.random()\<close> draws from the half-open interval from 0 to 1. The state of
  the generator is the sequence of the draws still to come; a draw takes its head.
\<close>

type_synonym rng = "nat \<Rightarrow> rat"

definition valid_rng :: "rng \<Rightarrow> bool" where
  "valid_rng g = (\<forall>n. 0 \<le> g n \<and> g n < 1)"

text \<open>
  \<^verbatim>\<open>[UNK_ID if x != UNK_ID and np.random.random() < dropout else x for x in tokens]\<close>:
  \<^verbatim>\<open>and\<close> draws only when \<open>x\<close> is not \<open>UNK_ID\<close>.
\<close>

fun word_dropout :: "int \<Rightarrow> int list \<Rightarrow> rat \<Rightarrow> rng \<Rightarrow> int list \<times> rng" where
  "word_dropout unk [] dropout g = ([], g)"
| "word_dropout unk (x # tokens) dropout g =
     (if x \<noteq> unk
      then (let (rest, g') = word_dropout unk tokens dropout (\<lambda>n. g (Suc n))
            in ((if g 0 < dropout then unk else x) # rest, g'))
      else (let (rest, g') = word_dropout unk tokens dropout g
            in (x # rest, g')))"

text \<open>\<^verbatim>\<open>[word_dropout(sent, ...) for sent in batch[0]]\<close>\<close>

fun word_dropout_all :: "int \<Rightarrow> int list list \<Rightarrow> rat \<Rightarrow> rng \<Rightarrow> int list list \<times> rng" where
  "word_dropout_all unk [] dropout g = ([], g)"
| "word_dropout_all unk (sent # sents) dropout g =
     (let (w, g') = word_dropout unk sent dropout g;
          (ws, g'') = word_dropout_all unk sents dropout g'
      in (w # ws, g''))"

subsection \<open>get_long_tensor\<close>

text \<open>
  A cell of a LongTensor is a signed 64-bit integer. The model keeps the cells as
  integers and writes the range out: a value outside it cannot be stored.
\<close>

definition int64 :: "int \<Rightarrow> bool" where
  "int64 x = (- (2 ^ 63) \<le> x \<and> x < 2 ^ 63)"

text \<open>\<^verbatim>\<open>torch.LongTensor(s)\<close> of a list of Python integers.\<close>

definition LongTensor :: "int list \<Rightarrow> py_error + int list" where
  "LongTensor s = (if list_all int64 s then Inr s else Inl TorchError)"

text \<open>
  A two-dimensional LongTensor is a list of rows. The loop
  \<^verbatim>\<open>for i, s in enumerate(tokens_list): tokens[i, :len(s)] = torch.LongTensor(s)\<close>
  first builds the tensor of \<open>s\<close>, then writes it over the first \<open>len(s)\<close> cells of row
  \<open>i\<close>; a row index beyond the tensor raises IndexError.
\<close>

fun fill_rows :: "int list list \<Rightarrow> nat \<Rightarrow> int list list \<Rightarrow> py_error + int list list" where
  "fill_rows tokens i [] = Inr tokens"
| "fill_rows tokens i (s # rest) =
     and_then (LongTensor s)
       (\<lambda>row. if i < length tokens
              then fill_rows (tokens[i := row @ drop (length row) (tokens ! i)]) (Suc i) rest
              else Inl IndexError)"

text \<open>
  \<^verbatim>\<open>torch.LongTensor(batch_size, token_len).fill_(constant.PAD_ID)\<close>: a negative size
  and a padding id that does not fit a cell are errors of torch.
\<close>

definition get_long_tensor :: "int \<Rightarrow> int list list \<Rightarrow> int \<Rightarrow> py_error + int list list" where
  "get_long_tensor pad tokens_list batch_size =
     and_then (py_max (map length tokens_list))
       (\<lambda>token_len.
          if batch_size < 0 then Inl TorchError
          else if \<not> int64 pad then Inl TorchError
          else fill_rows (replicate (nat batch_size) (replicate token_len pad)) 0 tokens_list)"

subsection \<open>__getitem__\<close>

text \<open>
  A key of \<^verbatim>\<open>__getitem__\<close>. \<^verbatim>\<open>isinstance(key, int)\<close> holds of an integer and of a
  boolean (\<^verbatim>\<open>bool\<close> is a subclass of \<^verbatim>\<open>int\<close>, with \<open>True = 1\<close> and \<open>False = 0\<close>).
\<close>

datatype key = IntKey int | BoolKey bool | FloatKey rat | StrKey string | NoneKey

fun isinstance_int :: "key \<Rightarrow> bool" where
  "isinstance_int (IntKey k) = True"
| "isinstance_int (BoolKey b) = True"
| "isinstance_int k = False"

fun int_of_key :: "key \<Rightarrow> int" where
  "int_of_key (IntKey k) = k"
| "int_of_key (BoolKey b) = (if b then 1 else 0)"
| "int_of_key k = 0"

text \<open>
  The tuple \<^verbatim>\<open>(words, masks, pos, ner, deprel, subj_positions, obj_positions, src_pos,
  rels, orig_idx)\<close> that \<^verbatim>\<open>__getitem__\<close> returns.
\<close>

record batch_tensors =
  out_words :: "int list list"
  out_masks :: "bool list list"
  out_pos :: "int list list"
  out_ner :: "int list list"
  out_deprel :: "int list list"
  out_subj_positions :: "int list list"
  out_obj_positions :: "int list list"
  out_src_pos :: "int list list"
  out_rels :: "int list"
  out_orig_idx :: "nat list"

text \<open>
  \<^verbatim>\<open>__getitem__\<close>, with the generator's state passed through. \<^verbatim>\<open>list(zip(*batch))\<close>
  of an empty batch is the empty list, which fails the assertion
  \<^verbatim>\<open>len(batch) == 8\<close>; of a batch of examples it is the eight columns, here
  \<open>map ex_tokens batch\<close> and so on. The tensors are built in the order of the source:
  the seven padded columns, then \<^verbatim>\<open>torch.LongTensor(batch[7])\<close> for the labels.
\<close>

definition DataLoader_getitem :: "loader \<Rightarrow> key \<Rightarrow> rng \<Rightarrow> (py_error + batch_tensors) \<times> rng" where
  "DataLoader_getitem L k g =
     (if \<not> isinstance_int k then (Inl TypeError, g)
      else if int_of_key k < 0 \<or> int_of_key k \<ge> int (length (self_data L))
      then (Inl IndexError, g)
      else
        (let batch = self_data L ! nat (int_of_key k);
             batch_size = int (length batch)
         in if batch = [] then (Inl AssertionError, g)
            else
              (let lens = map (\<lambda>x. length (ex_tokens x)) batch
               in case sort_all batch lens of
                    Inl e \<Rightarrow> (Inl e, g)
                  | Inr (batch, orig_idx) \<Rightarrow>
                      (let (words, g') =
                             (if \<not> self_eval L
                              then word_dropout_all (self_UNK_ID L) (map ex_tokens batch)
                                     (opt_word_dropout (self_opt L)) g
                              else (map ex_tokens batch, g));
                           pad = self_PAD_ID L
                       in (and_then (get_long_tensor pad words batch_size) (\<lambda>words.
                           and_then (get_long_tensor pad (map ex_pos batch) batch_size) (\<lambda>pos.
                           and_then (get_long_tensor pad (map ex_ner batch) batch_size) (\<lambda>ner.
                           and_then (get_long_tensor pad (map ex_deprel batch) batch_size) (\<lambda>deprel.
                           and_then (get_long_tensor pad (map ex_subj_positions batch) batch_size) (\<lambda>subj_positions.
                           and_then (get_long_tensor pad (map ex_obj_positions batch) batch_size) (\<lambda>obj_positions.
                           and_then (get_long_tensor pad (map ex_inst_position batch) batch_size) (\<lambda>src_pos.
                           and_then (LongTensor (map ex_relation batch)) (\<lambda>rels.
                             Inr \<lparr>out_words = words,
                                  out_masks = map (map (\<lambda>w. w = 0)) words,
                                  out_pos = pos, out_ner = ner, out_deprel = deprel,
                                  out_subj_positions = subj_positions,
                                  out_obj_positions = obj_positions,
                                  out_src_pos = src_pos,
                                  out_rels = rels,
                                  out_orig_idx = orig_idx\<rparr>)))))))),
                           g')))))"

subsection \<open>The unsorting step of RelationModel.predict (model/rnn.py)\<close>

text \<open>
  \<^verbatim>\<open>_, predictions, probs = [list(t) for t in zip(*sorted(zip(orig_idx, predictions,
  probs)))]\<close>. The triples are compared from the left; on indices that differ pairwise the
  index decides. With no triple the unpacking of the empty list raises ValueError. The
  forward pass that produces \<open>predictions\<close> and \<open>probs\<close> is not modelled: they are
  arguments, one entry per row of the sorted batch.
\<close>

definition predict_unsort :: "nat list \<Rightarrow> 'p list \<Rightarrow> 'q list \<Rightarrow> py_error + ('p list \<times> 'q list)" where
  "predict_unsort orig_idx predictions probs =
     (let s = sort_key fst (zip orig_idx (zip predictions probs))
      in if s = [] then Inl ValueError
         else Inr (map (\<lambda>(i, p, q). p) s, map (\<lambda>(i, p, q). q) s))"

subsection \<open>A small data set\<close>

text \<open>
  Three records over a store of three token lists, with small tables; the concrete
  instances below are computed on them.
\<close>

definition C0 :: constants where
  "C0 = \<lparr>word2id = map_of [(''SUBJ-PERSON'', 2), (''OBJ-CITY'', 3), (''lives'', 4), (''in'', 5),
                              (''she'', 6)],
          POS_TO_ID = map_of [(''NNP'', 2), (''VBZ'', 3), (''IN'', 4)],
          NER_TO_ID = map_of [(''O'', 2), (''PERSON'', 3), (''CITY'', 4)],
          DEPREL_TO_ID = map_of [(''nsubj'', 2), (''ROOT'', 3), (''case'', 4), (''nmod'', 5)],
          LABEL_TO_ID = map_of [(''no_relation'', 0), (''per:cities_of_residence'', 1)],
          PAD_ID = 0, UNK_ID = 1, str_lower = ascii_lower, ceil_log_beyond = (\<lambda>n. 64)\<rparr>"

definition st0 :: store where
  "st0 = [[''Alice'', ''Lives'', ''in'', ''Paris''],
          [''Bob'', ''Smith'', ''lives'', ''in'', ''New'', ''York''],
          [''She'', ''lives'']]"

definition d0 :: tacred where
  "d0 = \<lparr>token = 0, subj_start = 0, subj_end = 0, obj_start = 3, obj_end = 3,
          subj_type = ''PERSON'', obj_type = ''CITY'',
          stanford_pos = [''NNP'', ''VBZ'', ''IN'', ''NNP''],
          stanford_ner = [''PERSON'', ''O'', ''O'', ''CITY''],
          stanford_deprel = [''nsubj'', ''ROOT'', ''case'', ''nmod''],
          relation = ''per:cities_of_residence''\<rparr>"

definition d1 :: tacred where
  "d1 = \<lparr>token = 1, subj_start = 0, subj_end = 1, obj_start = 4, obj_end = 5,
          subj_type = ''PERSON'', obj_type = ''CITY'',
          stanford_pos = [''NNP'', ''NNP'', ''VBZ'', ''IN'', ''NNP'', ''NNP''],
          stanford_ner = [''PERSON'', ''PERSON'', ''O'', ''O'', ''CITY'', ''CITY''],
          stanford_deprel = [''compound'', ''nsubj'', ''ROOT'', ''case'', ''compound'', ''nmod''],
          relation = ''per:cities_of_residence''\<rparr>"

definition d2 :: tacred where
  "d2 = \<lparr>token = 2, subj_start = 0, subj_end = 0, obj_start = 1, obj_end = 1,
          subj_type = ''PERSON'', obj_type = ''CITY'',
          stanford_pos = [''PRP'', ''VBZ''],
          stanford_ner = [''O'', ''O''],
          stanford_deprel = [''nsubj'', ''ROOT''],
          relation = ''no_relation''\<rparr>"

definition opt0 :: opt where
  "opt0 = \<lparr>opt_lower = True, opt_word_dropout = 1 / 25\<rparr>"

text \<open>The three examples that \<open>preprocess\<close> makes of the three records.\<close>

definition e0 :: example where
  "e0 = \<lparr>ex_tokens = [2, 4, 5, 3], ex_pos = [2, 3, 4, 2], ex_ner = [3, 2, 2, 4],
          ex_deprel = [2, 3, 4, 5], ex_subj_positions = [0, 1, 2, 2],
          ex_obj_positions = [- 2, - 2, - 1, 0], ex_inst_position = [1, 2, 3, 4],
          ex_relation = 1\<rparr>"

definition e1 :: example where
  "e1 = \<lparr>ex_tokens = [2, 2, 4, 5, 3, 3], ex_pos = [2, 2, 3, 4, 2, 2],
          ex_ner = [3, 3, 2, 2, 4, 4], ex_deprel = [1, 2, 3, 4, 1, 5],
          ex_subj_positions = [0, 0, 1, 2, 2, 3],
          ex_obj_positions = [- 3, - 2, - 2, - 1, 0, 0],
          ex_inst_position = [1, 2, 3, 4, 5, 6], ex_relation = 1\<rparr>"

definition e2 :: example where
  "e2 = \<lparr>ex_tokens = [2, 3], ex_pos = [1, 3], ex_ner = [2, 2], ex_deprel = [2, 3],
          ex_subj_positions = [0, 1], ex_obj_positions = [- 1, 0],
          ex_inst_position = [1, 2], ex_relation = 0\<rparr>"

text \<open>
  The loader that \<^verbatim>\<open>__init__\<close> builds of the three records in evaluation mode with
  batches of two, and a generator whose every draw is one half.
\<close>

definition L0 :: loader where
  "L0 = \<lparr>self_batch_size = 2, self_opt = opt0, self_eval = True, self_num_examples = 3,
          self_data = [[e0, e1], [e2]], self_PAD_ID = 0, self_UNK_ID = 1\<rparr>"

definition g0 :: rng where
  "g0 = (\<lambda>n. 1 / 2)"

text \<open>The batch that \<^verbatim>\<open>__getitem__(0)\<close> returns on this loader.\<close>

definition out0 :: batch_tensors where
  "out0 = \<lparr>out_words = [[2, 2, 4, 5, 3, 3], [2, 4, 5, 3, 0, 0]],
           out_masks = [[False, False, False, False, False, False],
                        [False, False, False, False, True, True]],
           out_pos = [[2, 2, 3, 4, 2, 2], [2, 3, 4, 2, 0, 0]],
           out_ner = [[3, 3, 2, 2, 4, 4], [3, 2, 2, 4, 0, 0]],
           out_deprel = [[1, 2, 3, 4, 1, 5], [2, 3, 4, 5, 0, 0]],
           out_subj_positions = [[0, 0, 1, 2, 2, 3], [0, 1, 2, 2, 0, 0]],
           out_obj_positions = [[- 3, - 2, - 2, - 1, 0, 0], [- 2, - 2, - 1, 0, 0, 0]],
           out_src_pos = [[1, 2, 3, 4, 5, 6], [1, 2, 3, 4, 0, 0]],
           out_rels = [1, 1],
           out_orig_idx = [1, 0]\<rparr>"

text \<open>
  What the two slice assignments of lines 71 and 72 leave in a list that held \<open>tokens\<close>
  before them: first the subject span is written, then the object span.
\<close>

definition anonymized :: "tacred \<Rightarrow> string list \<Rightarrow> string list" where
  "anonymized d tokens =
     slice_assign
       (slice_assign tokens (subj_start d) (subj_end d + 1)
          (py_repeat (''SUBJ-'' @ subj_type d) (subj_end d - subj_start d + 1)))
       (obj_start d) (obj_end d + 1)
       (py_repeat (''OBJ-'' @ obj_type d) (obj_end d - obj_start d + 1))"

text \<open>A record whose subject span \<open>[0, 1]\<close> and object span \<open>[1, 2]\<close> share the index 1.\<close>

definition st_overlap :: store where
  "st_overlap = [[''New'', ''York'', ''City'']]"

definition d_overlap :: tacred where
  "d_overlap = \<lparr>token = 0, subj_start = 0, subj_end = 1, obj_start = 1, obj_end = 2,
          subj_type = ''PERSON'', obj_type = ''CITY'',
          stanford_pos = [''NNP'', ''NNP'', ''NNP''],
          stanford_ner = [''CITY'', ''CITY'', ''CITY''],
          stanford_deprel = [''compound'', ''compound'', ''ROOT''],
          relation = ''no_relation''\<rparr>"

text \<open>The example that \<open>preprocess\<close> makes of it.\<close>

definition e_overlap :: example where
  "e_overlap = \<lparr>ex_tokens = [2, 3, 3], ex_pos = [2, 2, 2], ex_ner = [4, 4, 4],
          ex_deprel = [1, 1, 3], ex_subj_positions = [0, 0, 1],
          ex_obj_positions = [- 1, 0, 0], ex_inst_position = [1, 2, 3],
          ex_relation = 0\<rparr>"

text \<open>Every id of an example fits a cell of a LongTensor.\<close>

definition fits_int64 :: "example \<Rightarrow> bool" where
  "fits_int64 x =
     (list_all int64 (ex_tokens x) \<and> list_all int64 (ex_pos x) \<and> list_all int64 (ex_ner x) \<and>
      list_all int64 (ex_deprel x) \<and> list_all int64 (ex_subj_positions x) \<and>
      list_all int64 (ex_obj_positions x) \<and> list_all int64 (ex_inst_position x) \<and>
      int64 (ex_relation x))"

text \<open>
  A vocabulary that gives the word \<open>lives\<close> the id \<open>2^63\<close>, one above the largest
  64-bit integer, the example that \<open>preprocess\<close> makes of the first record with it, and
  the loader of that one example.
\<close>

definition C_big :: constants where
  "C_big = C0\<lparr>word2id := (word2id C0)(''lives'' \<mapsto> 9223372036854775808)\<rparr>"

definition e0_big :: example where
  "e0_big = e0\<lparr>ex_tokens := [2, 9223372036854775808, 5, 3]\<rparr>"

definition L_big :: loader where
  "L_big = \<lparr>self_batch_size = 1, self_opt = opt0, self_eval = True, self_num_examples = 1,
          self_data = [[e0_big]], self_PAD_ID = 0, self_UNK_ID = 1\<rparr>"

section \<open>Properties\<close>

subsection \<open>Python primitives\<close>

lemma length_py_range: "length (py_range a b) = nat (b - a)"
  by (simp add: py_range_def)

lemma nth_py_range: "k < nat (b - a) \<Longrightarrow> py_range a b ! k = a + int k"
  by (simp add: py_range_def)

lemma ceiling_log2_ceillog2:
  assumes "1 \<le> n"
  shows "\<lceil>log 2 (real_of_int n)\<rceil> = int (ceillog2 (nat n))"
proof -
  have pos: "nat n \<noteq> 0" using assms by simp
  have "0 \<le> log 2 (real_of_int n)" using assms by simp
  then have "0 \<le> \<lceil>log 2 (real_of_int n)\<rceil>" by linarith
  moreover have "real (nat n) = real_of_int n" using assms by simp
  ultimately show ?thesis
    using pos by (simp add: ceillog2_def del: of_nat_nat)
qed

lemma log_ceil_code [code]:
  "log_ceil beyond x =
     (let n = \<bar>x\<bar> + 1
      in if n < 2 ^ 29 then int (ceillog2 (nat n))
         else if n = 2 ^ 29 then 30
         else beyond n)"
proof -
  have e: "\<lceil>log 2 (real_of_int (\<bar>x\<bar> + 1))\<rceil> = int (ceillog2 (nat (\<bar>x\<bar> + 1)))"
    by (rule ceiling_log2_ceillog2) simp
  show ?thesis unfolding log_ceil_def Let_def e ..
qed

lemma log_ceil_exact:
  "\<bar>x\<bar> + 1 < 2 ^ 29 \<Longrightarrow> log_ceil beyond x = \<lceil>log 2 (real_of_int (\<bar>x\<bar> + 1))\<rceil>"
  by (simp add: log_ceil_def Let_def)

subsection \<open>get_positions\<close>

lemma length_get_positions:
  "0 \<le> s \<Longrightarrow> s \<le> e \<Longrightarrow> e < l \<Longrightarrow> length (get_positions s e l) = nat l"
  by (simp add: get_positions_def length_py_range py_repeat_def)

text \<open>
  C5. For \<open>0 \<le> start_idx \<le> end_idx < length\<close>, \<open>get_positions\<close> returns exactly
  \<open>length\<close> entries; entry \<open>i\<close> is \<open>i - start_idx\<close> before the span, \<open>0\<close> inside it
  and \<open>i - end_idx\<close> after it.
\<close>

theorem get_positions_entries:
  assumes "0 \<le> s" and "s \<le> e" and "e < l"
  shows "length (get_positions s e l) = nat l \<and>
         (\<forall>i. 0 \<le> i \<and> i < l \<longrightarrow>
            get_positions s e l ! nat i =
              (if i < s then i - s else if i \<le> e then 0 else i - e))"
proof (intro conjI allI impI)
  show "length (get_positions s e l) = nat l"
    using assms by (rule length_get_positions)
next
  fix i :: int
  assume i: "0 \<le> i \<and> i < l"
  consider (before) "i < s" | (inside) "s \<le> i" "i \<le> e" | (after) "e < i" by linarith
  then show "get_positions s e l ! nat i =
      (if i < s then i - s else if i \<le> e then 0 else i - e)"
  proof cases
    case before
    then show ?thesis using i assms
      by (simp add: get_positions_def nth_append length_py_range nth_py_range)
  next
    case inside
    have k: "nat i - nat s < nat (e - s + 1)"
      using inside i assms by linarith
    show ?thesis using inside i assms
      by (simp add: get_positions_def nth_append length_py_range py_repeat_def k)
  next
    case after
    have k: "nat i - nat s - nat (e - s + 1) = nat (i - e - 1)"
      using after i assms by linarith
    have n: "\<not> nat i - nat s < nat (e - s + 1)" "\<not> i < s"
      using after i assms by linarith+
    show ?thesis using after i assms
      by (simp add: get_positions_def nth_append length_py_range py_repeat_def
          nth_py_range k n)
  qed
qed

theorem get_positions_entries_witness:
  "(0::int) \<le> 2 \<and> (2::int) \<le> 3 \<and> (3::int) < 6 \<and>
   get_positions 2 3 6 = [-2, -1, 0, 0, 1, 2] \<and>
   length (get_positions 2 3 6) = 6 \<and>
   get_positions 2 3 6 ! 0 = 0 - 2 \<and> get_positions 2 3 6 ! 3 = 0 \<and>
   get_positions 2 3 6 ! 5 = 5 - 3"
proof -
  have h: "(0::int) \<le> 2" "(2::int) \<le> 3" "(3::int) < 6" by simp_all
  note t = get_positions_entries [OF h]
  have v: "get_positions 2 3 6 = [-2, -1, 0, 0, 1, 2]"
    by (simp add: get_positions_def py_range_def py_repeat_def upto.simps numeral_eq_Suc)
  have "length (get_positions 2 3 6) = 6"
    using t by simp
  moreover have "get_positions 2 3 6 ! 0 = 0 - 2"
    using conjunct2 [OF t, rule_format, of 0] by simp
  moreover have "get_positions 2 3 6 ! 3 = 0"
    using conjunct2 [OF t, rule_format, of 3] by simp
  moreover have "get_positions 2 3 6 ! 5 = 5 - 3"
    using conjunct2 [OF t, rule_format, of 5] by simp
  ultimately show ?thesis using v by simp
qed

subsection \<open>relativate_word_positions\<close>


lemma length_negate_until_zero: "length (negate_until_zero xs) = length xs"
  by (induction xs) auto

lemma ceiling_log2_eq_0_iff:
  "\<lceil>log 2 (real_of_int (\<bar>x\<bar> + 1))\<rceil> = 0 \<longleftrightarrow> x = 0"
proof -
  have "ceillog2 (nat (\<bar>x\<bar> + 1)) \<le> 0 \<longleftrightarrow> nat (\<bar>x\<bar> + 1) \<le> 2 ^ 0"
    by (rule ceillog2_le_iff) simp
  moreover have "\<lceil>log 2 (real_of_int (\<bar>x\<bar> + 1))\<rceil> = int (ceillog2 (nat (\<bar>x\<bar> + 1)))"
    by (rule ceiling_log2_ceillog2) simp
  ultimately show ?thesis by simp linarith
qed

lemma log_ceil_eq_0_iff:
  "\<bar>x\<bar> + 1 < 2 ^ 29 \<Longrightarrow> log_ceil beyond x = 0 \<longleftrightarrow> x = 0"
  by (simp only: log_ceil_exact ceiling_log2_eq_0_iff)












subsection \<open>The length check of relativate_word_positions\<close>

lemma length_relativate: "length (fst (relativate_word_positions beyond xs)) = length xs"
  by (simp add: relativate_word_positions_def Let_def length_negate_until_zero)

lemma relativate_prints_nothing: "snd (relativate_word_positions beyond xs) = []"
  by (simp add: relativate_word_positions_def Let_def length_negate_until_zero)

text \<open>
  C10. On an input that contains a zero, \<open>relativate_word_positions\<close> returns a list of
  the length of its input, and the branch that prints the error line is not taken.
\<close>

theorem relativate_word_positions_length:
  "0 \<in> set xs \<Longrightarrow>
     length (fst (relativate_word_positions beyond xs)) = length xs \<and>
     snd (relativate_word_positions beyond xs) = []"
  by (simp add: length_relativate relativate_prints_nothing)

theorem relativate_word_positions_length_witness:
  "(0::int) \<in> set [-1, 0, 1, 2, 3] \<and>
   length (fst (relativate_word_positions (\<lambda>n. 64) [-1, 0, 1, 2, 3])) = length [-1, 0, 1, 2, 3::int] \<and>
   snd (relativate_word_positions (\<lambda>n. 64) [-1, 0, 1, 2, 3]) = []"
proof -
  have h: "(0::int) \<in> set [-1, 0, 1, 2, 3]" by simp
  show ?thesis using h relativate_word_positions_length [OF h] by simp
qed

subsection \<open>Chunking into batches\<close>

declare range_from.simps [simp del]

lemma range_from_stop: "n \<le> i \<Longrightarrow> range_from i n b = []"
  by (simp add: range_from.simps [of i n b])

lemma range_from_step:
  "0 < b \<Longrightarrow> i < n \<Longrightarrow> range_from i n b = i # range_from (i + b) n b"
  by (simp add: range_from.simps [of i n b])

lemma py_slice_take_drop:
  "py_slice xs (int i) (int i + int b) = take b (drop i xs)"
proof (cases "i \<le> length xs")
  case True
  have "min (i + b) (length xs) - i = min b (length xs - i)" using True by linarith
  then show ?thesis using True
    by (simp add: py_slice_def slice_index_def Let_def nat_add_distrib min_def)
next
  case False
  then show ?thesis by (simp add: py_slice_def slice_index_def Let_def)
qed

lemma concat_range_from:
  "0 < b \<Longrightarrow> concat (map (\<lambda>i. take b (drop i xs)) (range_from i (length xs) b)) = drop i xs"
proof (induction i "length xs" b rule: range_from.induct)
  case (1 i step)
  show ?case
  proof (cases "length xs \<le> i")
    case True
    then show ?thesis by (simp add: range_from_stop)
  next
    case False
    have "drop (i + step) xs = drop step (drop i xs)" by (simp add: add.commute)
    moreover have "concat (map (\<lambda>i. take step (drop i xs)) (range_from (i + step) (length xs) step))
        = drop (i + step) xs"
      using False 1 by simp
    ultimately show ?thesis using False 1(2)
      by (simp add: range_from_step del: drop_drop)
  qed
qed

lemma length_range_from:
  "0 < b \<Longrightarrow> length (range_from i n b) = (n - i + b - 1) div b"
proof (induction i n b rule: range_from.induct)
  case (1 i n step)
  show ?case
  proof (cases "n \<le> i")
    case True
    then show ?thesis using 1(2) by (simp add: range_from_stop)
  next
    case False
    have "(n - i + step - 1) div step = Suc ((n - (i + step) + step - 1) div step)"
    proof (cases "n \<le> i + step")
      case True
      then have "n - i + step - 1 < 2 * step" "step \<le> n - i + step - 1" using False 1(2) by linarith+
      then have "(n - i + step - 1) div step = 1"
        by (intro div_nat_eqI) simp_all
      moreover have "(n - (i + step) + step - 1) div step = 0"
        using True 1(2) by simp
      ultimately show ?thesis by simp
    next
      case f: False
      define m where "m = n - (i + step) + step - 1"
      have e: "n - i + step - 1 = m + step" "n - (i + step) + step - 1 = m"
        using f 1(2) by (simp_all add: m_def)
      have "(m + step) div step = Suc (m div step)"
        using 1(2) by simp
      then show ?thesis by (simp only: e)
    qed
    moreover have "length (range_from (i + step) n step) = (n - (i + step) + step - 1) div step"
      using False 1 by simp
    ultimately show ?thesis using False 1(2) by (simp add: range_from_step)
  qed
qed

lemma nth_range_from:
  "0 < b \<Longrightarrow> k < length (range_from i n b) \<Longrightarrow> range_from i n b ! k = i + k * b"
proof (induction i n b arbitrary: k rule: range_from.induct)
  case (1 i n step)
  show ?case
  proof (cases "n \<le> i")
    case True
    then show ?thesis using 1(3) by (simp add: range_from_stop)
  next
    case False
    show ?thesis
    proof (cases k)
      case 0
      then show ?thesis using False 1(2) by (simp add: range_from_step)
    next
      case (Suc j)
      then have "j < length (range_from (i + step) n step)"
        using 1(3) False 1(2) by (simp add: range_from_step)
      then have "range_from (i + step) n step ! j = i + step + j * step"
        using 1(1) False 1(2) by simp
      then show ?thesis using Suc False 1(2) by (simp add: range_from_step)
    qed
  qed
qed


lemma chunk_pos:
  assumes "0 < bs"
  shows "chunk xs bs =
     Inr (map (\<lambda>i. take (nat bs) (drop i xs)) (range_from 0 (length xs) (nat bs)))"
proof -
  have "py_slice xs (int i) (int i + bs) = take (nat bs) (drop i xs)" for i
    using py_slice_take_drop [of xs i "nat bs"] assms by simp
  then show ?thesis using assms
    by (simp add: chunk_def py_range_step_def and_then_def)
qed

lemma ceil_div_cases: 
  assumes "0 < (b::nat)"
  shows "(n + b - 1) div b = n div b + (if n mod b = 0 then 0 else 1)"
proof -
  define q r where "q = n div b" and "r = n mod b"
  have n: "n = q * b + r" and r: "r < b" using assms by (simp_all add: q_def r_def)
  show ?thesis
  proof (cases "r = 0")
    case True
    then have "n + b - 1 = q * b + (b - 1)" using n assms by simp
    then have "(n + b - 1) div b = q + (b - 1) div b" using assms by (metis div_mult_self3 less_numeral_extra(3))
    then show ?thesis using True assms by (simp add: q_def r_def)
  next
    case False
    then have "n + b - 1 = (q + 1) * b + (r - 1)" using n assms by simp
    then have "(n + b - 1) div b = (q + 1) + (r - 1) div b" using assms by (metis div_mult_self3 less_numeral_extra(3))
    moreover have "(r - 1) div b = 0" using r by simp
    ultimately show ?thesis using False by (simp add: q_def r_def)
  qed
qed

lemma ceiling_div_cases:
  assumes "0 < (b::nat)"
  shows "\<lceil>real n / real b\<rceil> = int (n div b + (if n mod b = 0 then 0 else 1))"
proof -
  have "real n = real (n div b * b + n mod b)" by simp
  also have "\<dots> = real (n div b) * real b + real (n mod b)"
    by (simp only: of_nat_add of_nat_mult)
  finally have e: "real n / real b = real (n div b) + real (n mod b) / real b"
    using assms by (simp add: field_simps)
  show ?thesis
  proof (cases "n mod b = 0")
    case True
    then show ?thesis using e by simp
  next
    case False
    have "0 < real (n mod b) / real b" using False assms by simp
    moreover have "real (n mod b) / real b \<le> 1" using assms by simp
    ultimately have "\<lceil>real (n mod b) / real b\<rceil> = 1" by (intro ceiling_unique) simp_all
    then have "\<lceil>real (n div b) + real (n mod b) / real b\<rceil> = int (n div b) + 1"
      by (metis ceiling_add_of_int add.commute of_int_of_nat_eq)
    then show ?thesis using e False by simp
  qed
qed

lemma batch_length_cases:
  assumes "0 < (b::nat)" "k < n div b + (if n mod b = 0 then 0 else 1)"
  shows "min b (n - k * b) = (if k < n div b then b else n mod b)"
proof (cases "k < n div b")
  case True
  then have "Suc k \<le> n div b" by simp
  then have "Suc k * b \<le> n div b * b" by (rule mult_le_mono1)
  also have "\<dots> \<le> n" by simp
  finally have "b \<le> n - k * b" by simp
  then show ?thesis using True by simp
next
  case False
  then have k: "k = n div b" "n mod b \<noteq> 0" using assms(2) by (auto split: if_splits)
  have "n - k * b = n mod b" unfolding k by (simp add: minus_div_mult_eq_mod)
  moreover have "n mod b < b" using assms by simp
  ultimately show ?thesis using False by simp
qed

lemma mset_map_nth_perm:
  "mset shuffled = mset [0..<length xs] \<Longrightarrow> mset (map (\<lambda>i. xs ! i) shuffled) = mset xs"
proof -
  assume a: "mset shuffled = mset [0..<length xs]"
  have "mset (map (\<lambda>i. xs ! i) shuffled) = image_mset (\<lambda>i. xs ! i) (mset shuffled)" by simp
  also have "\<dots> = mset (map (\<lambda>i. xs ! i) [0..<length xs])" by (simp add: a)
  also have "\<dots> = mset xs" by (simp add: map_nth)
  finally show ?thesis .
qed


lemma length_perm: "mset shuffled = mset [0..<n] \<Longrightarrow> length shuffled = n"
  by (metis size_mset length_upt diff_zero)

text \<open>
  C7. For \<open>batch_size > 0\<close> the loader holds \<open>\<lceil>n / batch_size\<rceil>\<close> batches of the \<open>n\<close>
  preprocessed examples (in the shuffled order when training): batch \<open>k\<close> is the run of
  \<open>batch_size\<close> consecutive examples from position \<open>k * batch_size\<close>, every batch has
  \<open>batch_size\<close> examples but the last, which has \<open>n mod batch_size\<close> when that is not zero;
  \<open>len(loader)\<close> is the number of batches, and the batches together are the examples, none
  dropped and none twice.
\<close>

theorem DataLoader_chunks:
  assumes "0 < batch_size"
    and "preprocess C (opt_lower opt') raw st = (Inr processed, st')"
    and "mset shuffled = mset [0..<length processed]"
  shows "\<exists>L. DataLoader_init C raw batch_size opt' evaluation shuffled st = (Inr L, st') \<and>
     (let ordered = (if evaluation then processed else map (\<lambda>i. processed ! i) shuffled);
          n = length processed; b = nat batch_size
      in int (length (self_data L)) = \<lceil>real n / real_of_int batch_size\<rceil> \<and>
         DataLoader_len L = length (self_data L) \<and>
         concat (self_data L) = ordered \<and>
         mset (concat (self_data L)) = mset processed \<and>
         (\<forall>k<length (self_data L).
             self_data L ! k = take b (drop (k * b) ordered) \<and>
             length (self_data L ! k) = (if k < n div b then b else n mod b)))"
proof -
  define ordered where
    "ordered = (if evaluation then processed else map (\<lambda>i. processed ! i) shuffled)"
  define n where "n = length processed"
  define b where "b = nat batch_size"
  define batches where
    "batches = map (\<lambda>i. take b (drop i ordered)) (range_from 0 (length ordered) b)"
  define L where "L = \<lparr>self_batch_size = batch_size, self_opt = opt',
      self_eval = evaluation, self_num_examples = length ordered,
      self_data = batches, self_PAD_ID = PAD_ID C, self_UNK_ID = UNK_ID C\<rparr>"
  have b: "0 < b" "real_of_int batch_size = real b"
    using assms(1) by (simp_all add: b_def)
  have len: "length ordered = n"
    using length_perm [OF assms(3)] by (simp add: ordered_def n_def)
  have ms: "mset ordered = mset processed"
    using mset_map_nth_perm [OF assms(3)] by (simp add: ordered_def)
  have init: "DataLoader_init C raw batch_size opt' evaluation shuffled st = (Inr L, st')"
  proof -
    have ch: "chunk ordered batch_size = Inr batches"
      using chunk_pos [OF assms(1)] by (simp add: batches_def b_def)
    have ord: "(if \<not> evaluation then map (\<lambda>i. processed ! i) shuffled else processed) = ordered"
      by (simp add: ordered_def)
    show ?thesis
      by (simp add: DataLoader_init_def assms(2) Let_def ord ch and_then_def L_def)
  qed
  have cnt: "length batches = n div b + (if n mod b = 0 then 0 else 1)"
  proof -
    have "length batches = (n + b - 1) div b"
      using b(1) by (simp add: batches_def length_range_from len)
    then show ?thesis by (simp only: ceil_div_cases [OF b(1)])
  qed
  have c1: "int (length batches) = \<lceil>real n / real_of_int batch_size\<rceil>"
    using b by (simp only: cnt ceiling_div_cases)
  have c2: "concat batches = ordered"
    using concat_range_from [OF b(1), of ordered 0] by (simp add: batches_def)
  have c3: "batches ! k = take b (drop (k * b) ordered) \<and>
      length (batches ! k) = (if k < n div b then b else n mod b)" if "k < length batches" for k
  proof -
    have k: "k < length (range_from 0 (length ordered) b)" using that by (simp add: batches_def)
    have "batches ! k = take b (drop (k * b) ordered)"
      using k nth_range_from [OF b(1) k] by (simp add: batches_def)
    moreover have "min b (n - k * b) = (if k < n div b then b else n mod b)"
      using batch_length_cases [OF b(1)] that cnt by simp
    ultimately show ?thesis by (simp add: len)
  qed
  have sd: "self_data L = batches" by (simp add: L_def)
  have "DataLoader_init C raw batch_size opt' evaluation shuffled st = (Inr L, st') \<and>
      int (length (self_data L)) = \<lceil>real n / real_of_int batch_size\<rceil> \<and>
      DataLoader_len L = length (self_data L) \<and>
      concat (self_data L) = ordered \<and>
      mset (concat (self_data L)) = mset processed \<and>
      (\<forall>k<length (self_data L).
          self_data L ! k = take b (drop (k * b) ordered) \<and>
          length (self_data L ! k) = (if k < n div b then b else n mod b))"
    unfolding sd DataLoader_len_def c2 using init c1 c3 ms by blast
  then show ?thesis
    unfolding Let_def ordered_def n_def b_def by (rule exI)
qed

subsection \<open>The small data set, preprocessed\<close>

lemma preprocess_one_d0:
  "preprocess_one C0 True d0 st0 =
     (Inr e0, st0 @ [[''SUBJ-PERSON'', ''lives'', ''in'', ''OBJ-CITY'']])"
  by code_simp

lemma preprocess_one_d1:
  "preprocess_one C0 True d1 (st0 @ [[''SUBJ-PERSON'', ''lives'', ''in'', ''OBJ-CITY'']]) =
     (Inr e1, st0 @ [[''SUBJ-PERSON'', ''lives'', ''in'', ''OBJ-CITY''],
        [''SUBJ-PERSON'', ''SUBJ-PERSON'', ''lives'', ''in'', ''OBJ-CITY'', ''OBJ-CITY'']])"
  by code_simp

lemma preprocess_one_d2:
  "preprocess_one C0 True d2 (st0 @ [[''SUBJ-PERSON'', ''lives'', ''in'', ''OBJ-CITY''],
        [''SUBJ-PERSON'', ''SUBJ-PERSON'', ''lives'', ''in'', ''OBJ-CITY'', ''OBJ-CITY'']]) =
     (Inr e2, st0 @ [[''SUBJ-PERSON'', ''lives'', ''in'', ''OBJ-CITY''],
        [''SUBJ-PERSON'', ''SUBJ-PERSON'', ''lives'', ''in'', ''OBJ-CITY'', ''OBJ-CITY''],
        [''SUBJ-PERSON'', ''OBJ-CITY'']])"
  by code_simp

lemma preprocess_example:
  "preprocess C0 True [d0, d1, d2] st0 =
     (Inr [e0, e1, e2],
      st0 @ [[''SUBJ-PERSON'', ''lives'', ''in'', ''OBJ-CITY''],
             [''SUBJ-PERSON'', ''SUBJ-PERSON'', ''lives'', ''in'', ''OBJ-CITY'', ''OBJ-CITY''],
             [''SUBJ-PERSON'', ''OBJ-CITY'']])"
  by (simp add: preprocess_one_d0 preprocess_one_d1 preprocess_one_d2)


lemma opt0_lower: "opt_lower opt0 = True"
  by (simp add: opt0_def)

lemma perm_example: "mset [2, 0, 1] = mset [0..<length [e0, e1, e2]]"
  by (simp add: upt_rec)

theorem DataLoader_chunks_witness:
  "(0::int) < 2 \<and>
   preprocess C0 (opt_lower opt0) [d0, d1, d2] st0 =
     (Inr [e0, e1, e2],
      st0 @ [[''SUBJ-PERSON'', ''lives'', ''in'', ''OBJ-CITY''],
             [''SUBJ-PERSON'', ''SUBJ-PERSON'', ''lives'', ''in'', ''OBJ-CITY'', ''OBJ-CITY''],
             [''SUBJ-PERSON'', ''OBJ-CITY'']]) \<and>
   mset [2, 0, 1] = mset [0..<length [e0, e1, e2]] \<and>
   (\<exists>L. fst (DataLoader_init C0 [d0, d1, d2] 2 opt0 False [2, 0, 1] st0) = Inr L \<and>
        length (self_data L) = 2 \<and> DataLoader_len L = 2 \<and>
        concat (self_data L) = [e2, e0, e1] \<and>
        self_data L ! 0 = [e2, e0] \<and> self_data L ! 1 = [e1] \<and>
        length (self_data L ! 0) = 2 \<and> length (self_data L ! 1) = 3 mod 2)"
proof -
  have h1: "(0::int) < 2" by simp
  have h2: "preprocess C0 (opt_lower opt0) [d0, d1, d2] st0 =
     (Inr [e0, e1, e2],
      st0 @ [[''SUBJ-PERSON'', ''lives'', ''in'', ''OBJ-CITY''],
             [''SUBJ-PERSON'', ''SUBJ-PERSON'', ''lives'', ''in'', ''OBJ-CITY'', ''OBJ-CITY''],
             [''SUBJ-PERSON'', ''OBJ-CITY'']])"
    by (simp only: opt0_lower preprocess_example)
  note h3 = perm_example
  from DataLoader_chunks [OF h1 h2 h3, of False] obtain L where
    i: "DataLoader_init C0 [d0, d1, d2] 2 opt0 False [2, 0, 1] st0 =
         (Inr L, st0 @ [[''SUBJ-PERSON'', ''lives'', ''in'', ''OBJ-CITY''],
             [''SUBJ-PERSON'', ''SUBJ-PERSON'', ''lives'', ''in'', ''OBJ-CITY'', ''OBJ-CITY''],
             [''SUBJ-PERSON'', ''OBJ-CITY'']])"
    and r: "let ordered = (if False then [e0, e1, e2] else map (\<lambda>i. [e0, e1, e2] ! i) [2, 0, 1]);
          n = length [e0, e1, e2]; b = nat 2
      in int (length (self_data L)) = \<lceil>real n / real_of_int 2\<rceil> \<and>
         DataLoader_len L = length (self_data L) \<and>
         concat (self_data L) = ordered \<and>
         mset (concat (self_data L)) = mset [e0, e1, e2] \<and>
         (\<forall>k<length (self_data L).
             self_data L ! k = take b (drop (k * b) ordered) \<and>
             length (self_data L ! k) = (if k < n div b then b else n mod b))"
    by blast
  note r' = r [unfolded Let_def]
  have ce: "\<lceil>(3::real) / 2\<rceil> = 2"
    by (simp add: ceiling_eq_iff)
  have n2: "length (self_data L) = 2"
    using conjunct1 [OF r'] ce by simp
  have l: "DataLoader_len L = 2"
    using conjunct1 [OF conjunct2 [OF r']] n2 by simp
  have c: "concat (self_data L) = [e2, e0, e1]"
    using conjunct1 [OF conjunct2 [OF conjunct2 [OF r']]] by simp
  note k = conjunct2 [OF conjunct2 [OF conjunct2 [OF conjunct2 [OF r']]]]
  have "self_data L ! 0 = [e2, e0] \<and> length (self_data L ! 0) = 2"
    using k [rule_format, of 0] n2 by simp
  moreover have "self_data L ! 1 = [e1] \<and> length (self_data L ! 1) = 3 mod 2"
    using k [rule_format, of 1] n2 by simp
  ultimately show ?thesis using h1 h2 h3 i n2 l c
    by (intro conjI exI [of _ L]) simp_all
qed

subsection \<open>word_dropout\<close>

lemma word_dropout_rel:
  "list_all2 (\<lambda>y x. (y = x \<or> y = unk) \<and> (x = unk \<longrightarrow> y = unk))
     (fst (word_dropout unk tokens dropout g)) tokens"
  by (induction tokens arbitrary: g) (simp_all add: Let_def case_prod_beta)

lemma length_word_dropout: "length (fst (word_dropout unk tokens dropout g)) = length tokens"
  using word_dropout_rel [of unk tokens dropout g] by (simp add: list_all2_lengthD)

lemma valid_rng_tail: "valid_rng g \<Longrightarrow> valid_rng (\<lambda>n. g (Suc n))"
  by (simp add: valid_rng_def)

lemma word_dropout_zero:
  "valid_rng g \<Longrightarrow> dropout \<le> 0 \<Longrightarrow> fst (word_dropout unk tokens dropout g) = tokens"
proof (induction tokens arbitrary: g)
  case Nil
  then show ?case by simp
next
  case (Cons x xs)
  have "0 \<le> g 0" using Cons.prems(1) by (simp add: valid_rng_def)
  then have n: "\<not> g 0 < dropout" using Cons.prems(2) by simp
  have a: "fst (word_dropout unk xs dropout (\<lambda>n. g (Suc n))) = xs"
    using Cons.IH [OF valid_rng_tail [OF Cons.prems(1)] Cons.prems(2)] .
  have b: "fst (word_dropout unk xs dropout g) = xs"
    using Cons.IH [OF Cons.prems] .
  show ?case by (simp add: Let_def case_prod_beta n a b)
qed

lemma word_dropout_all_rel:
  "list_all2 (list_all2 (\<lambda>y x. (y = x \<or> y = unk) \<and> (x = unk \<longrightarrow> y = unk)))
     (fst (word_dropout_all unk sents dropout g)) sents"
proof (induction sents arbitrary: g)
  case Nil
  then show ?case by simp
next
  case (Cons s sents)
  show ?case
    using word_dropout_rel [of unk s dropout g] Cons.IH
    by (simp add: Let_def case_prod_beta)
qed

lemma word_dropout_all_lengths:
  "map length (fst (word_dropout_all unk sents dropout g)) = map length sents"
proof (induction sents arbitrary: g)
  case Nil
  then show ?case by simp
next
  case (Cons s sents)
  show ?case
    using length_word_dropout [of unk s dropout g] Cons.IH
    by (simp add: Let_def case_prod_beta)
qed

subsection \<open>get_long_tensor\<close>

lemma LongTensor_ok: "list_all int64 s \<Longrightarrow> LongTensor s = Inr s"
  by (simp add: LongTensor_def)

lemma LongTensor_Inr: "LongTensor s = Inr v \<Longrightarrow> v = s \<and> list_all int64 s"
  by (simp add: LongTensor_def split: if_splits)

lemma LongTensor_cases: "LongTensor s = Inr s \<or> LongTensor s = Inl TorchError"
  by (simp add: LongTensor_def)

lemma and_then_Inr [simp]: "and_then (Inr v) f = f v"
  by (simp add: and_then_def)

lemma and_then_Inl [simp]: "and_then (Inl e) f = Inl e"
  by (simp add: and_then_def)

lemma and_then_InrE:
  assumes "and_then r f = Inr y"
  obtains v where "r = Inr v" and "f v = Inr y"
  using assms by (cases r) simp_all

lemma and_then_cases:
  assumes "(\<exists>v. r = Inr v) \<or> r = Inl TorchError"
    and "\<And>v. (\<exists>y. f v = Inr y) \<or> f v = Inl TorchError"
  shows "(\<exists>y. and_then r f = Inr y) \<or> and_then r f = Inl TorchError"
  using assms by (cases r) auto

lemma fill_rows_ok:
  "i + length ss \<le> length t \<Longrightarrow> \<forall>s\<in>set ss. list_all int64 s \<Longrightarrow>
     fill_rows t i ss =
       Inr (take i t @ map (\<lambda>(s, row). s @ drop (length s) row) (zip ss (drop i t))
              @ drop (i + length ss) t)"
proof (induction ss arbitrary: t i)
  case Nil
  then show ?case by simp
next
  case (Cons s ss)
  let ?t = "t[i := s @ drop (length s) (t ! i)]"
  have i: "i < length t" using Cons.prems by simp
  have s: "LongTensor s = Inr s" using Cons.prems(2) by (simp add: LongTensor_ok)
  have "fill_rows ?t (Suc i) ss =
      Inr (take (Suc i) ?t @ map (\<lambda>(s, row). s @ drop (length s) row) (zip ss (drop (Suc i) ?t))
              @ drop (Suc i + length ss) ?t)"
    using Cons.prems by (intro Cons.IH) simp_all
  moreover have "take (Suc i) ?t = take i t @ [s @ drop (length s) (t ! i)]"
    using i by (simp add: take_Suc_conv_app_nth)
  moreover have "drop (Suc i) ?t = drop (Suc i) t" by simp
  moreover have "drop (Suc i + length ss) ?t = drop (Suc i + length ss) t" by simp
  moreover have "drop i t = t ! i # drop (Suc i) t" using i by (simp add: Cons_nth_drop_Suc)
  ultimately show ?case using i by (simp add: s)
qed

lemma fill_rows_overflow:
  "i \<le> length t \<Longrightarrow> length t < i + length ss \<Longrightarrow> \<forall>s\<in>set ss. list_all int64 s \<Longrightarrow>
     fill_rows t i ss = Inl IndexError"
proof (induction ss arbitrary: t i)
  case Nil
  then show ?case by simp
next
  case (Cons s ss)
  have s: "LongTensor s = Inr s" using Cons.prems(3) by (simp add: LongTensor_ok)
  show ?case
  proof (cases "i < length t")
    case True
    then show ?thesis using Cons by (simp add: s)
  next
    case False
    then show ?thesis by (simp add: s)
  qed
qed

lemma fill_rows_cases:
  "i + length ss \<le> length t \<Longrightarrow>
     (\<exists>m. fill_rows t i ss = Inr m) \<or> fill_rows t i ss = Inl TorchError"
proof (induction ss arbitrary: t i)
  case Nil
  then show ?case by simp
next
  case (Cons s ss)
  have i: "i < length t" using Cons.prems by simp
  show ?case
  proof (cases "list_all int64 s")
    case True
    have "Suc i + length ss \<le> length (t[i := s @ drop (length s) (t ! i)])"
      using Cons.prems by simp
    from Cons.IH [OF this] show ?thesis using i True by (simp add: LongTensor_ok)
  next
    case False
    then show ?thesis by (simp add: LongTensor_def)
  qed
qed

lemma py_max_Max: "xs \<noteq> [] \<Longrightarrow> py_max (map length xs) = Inr (Max (length ` set xs))"
  by (cases xs) (simp_all add: Max.set_eq_fold [symmetric])

lemma get_long_tensor_ok:
  assumes "tokens_list \<noteq> []" and "length tokens_list \<le> n"
    and "\<forall>s\<in>set tokens_list. list_all int64 s" and "int64 pad"
  shows "get_long_tensor pad tokens_list (int n) =
     Inr (map (\<lambda>s. s @ replicate (Max (length ` set tokens_list) - length s) pad) tokens_list
          @ replicate (n - length tokens_list) (replicate (Max (length ` set tokens_list)) pad))"
proof -
  let ?L = "Max (length ` set tokens_list)"
  let ?t = "replicate n (replicate ?L pad)"
  have "fill_rows ?t 0 tokens_list =
      Inr (take 0 ?t @ map (\<lambda>(s, row). s @ drop (length s) row) (zip tokens_list (drop 0 ?t))
              @ drop (0 + length tokens_list) ?t)"
    using assms(2,3) by (intro fill_rows_ok) simp_all
  moreover have "map (\<lambda>(s, row). s @ drop (length s) row) (zip tokens_list ?t)
      = map (\<lambda>s. s @ replicate (?L - length s) pad) tokens_list"
    using assms(2) by (intro nth_equalityI) simp_all
  ultimately show ?thesis using assms(1,4)
    by (simp add: get_long_tensor_def py_max_Max)
qed

lemma get_long_tensor_cases:
  assumes "tokens_list \<noteq> []"
  shows "(\<exists>m. get_long_tensor pad tokens_list (int (length tokens_list)) = Inr m) \<or>
         get_long_tensor pad tokens_list (int (length tokens_list)) = Inl TorchError"
proof (cases "int64 pad")
  case True
  have "(\<exists>m. fill_rows (replicate (length tokens_list)
            (replicate (Max (length ` set tokens_list)) pad)) 0 tokens_list = Inr m) \<or>
        fill_rows (replicate (length tokens_list)
            (replicate (Max (length ` set tokens_list)) pad)) 0 tokens_list = Inl TorchError"
    by (rule fill_rows_cases) simp
  then show ?thesis using assms True by (simp add: get_long_tensor_def py_max_Max)
next
  case False
  then show ?thesis using assms by (simp add: get_long_tensor_def py_max_Max)
qed

lemma length_le_Max: "s \<in> set xs \<Longrightarrow> length s \<le> Max (length ` set xs)"
  by (rule Max_ge) simp_all

lemma Max_length_const:
  assumes "xs \<noteq> []" and "\<forall>s\<in>set xs. length s = c"
  shows "Max (length ` set xs) = c"
proof -
  have "Max (length ` set xs) \<in> length ` set xs"
    using assms(1) by (intro Max_in) simp_all
  then obtain s where "s \<in> set xs" "Max (length ` set xs) = length s" by blast
  then show ?thesis using assms(2) by simp
qed

lemma padded_row:
  assumes "length s \<le> L"
  shows "length (s @ replicate (L - length s) pad) = L \<and>
         take (length s) (s @ replicate (L - length s) pad) = s \<and>
         (\<forall>j<length (s @ replicate (L - length s) pad).
             length s \<le> j \<longrightarrow> (s @ replicate (L - length s) pad) ! j = pad)"
proof (intro conjI allI impI)
  show "length (s @ replicate (L - length s) pad) = L" using assms by simp
  show "take (length s) (s @ replicate (L - length s) pad) = s" by simp
next
  fix j
  assume "j < length (s @ replicate (L - length s) pad)" and "length s \<le> j"
  then show "(s @ replicate (L - length s) pad) ! j = pad"
    by (simp add: nth_append)
qed

text \<open>
  C3, as amended. For a non-empty list of non-empty sequences of ids that fit 64 bits,
  a \<open>PAD_ID\<close> that fits 64 bits and a \<open>batch_size\<close> not below the number of sequences,
  \<open>get_long_tensor\<close> returns \<open>batch_size\<close> rows of length \<open>L\<close>, the longest sequence's
  length; row \<open>i\<close> of a sequence \<open>i\<close> starts with that sequence and is \<open>PAD_ID\<close> after it; a
  row beyond the sequences is \<open>PAD_ID\<close> throughout; when \<open>batch_size\<close> is the number of
  sequences, sequences of one length come back as they are.
\<close>

theorem get_long_tensor_padded:
  assumes "tokens_list \<noteq> []"
    and "\<forall>s\<in>set tokens_list. s \<noteq> []"
    and "int (length tokens_list) \<le> batch_size"
    and "\<forall>s\<in>set tokens_list. list_all int64 s"
    and "int64 pad"
  shows "\<exists>m. get_long_tensor pad tokens_list batch_size = Inr m \<and>
      length m = nat batch_size \<and>
      (\<forall>i<length m. length (m ! i) = Max (length ` set tokens_list)) \<and>
      (\<forall>i<length tokens_list.
          take (length (tokens_list ! i)) (m ! i) = tokens_list ! i \<and>
          (\<forall>j<length (m ! i). length (tokens_list ! i) \<le> j \<longrightarrow> m ! i ! j = pad)) \<and>
      (\<forall>i<length m. length tokens_list \<le> i \<longrightarrow> (\<forall>j<length (m ! i). m ! i ! j = pad)) \<and>
      (batch_size = int (length tokens_list) \<and>
       (\<forall>s\<in>set tokens_list. length s = length (hd tokens_list)) \<longrightarrow> m = tokens_list)"
proof -
  define L where "L = Max (length ` set tokens_list)"
  define n where "n = nat batch_size"
  define m where "m = map (\<lambda>s. s @ replicate (L - length s) pad) tokens_list
          @ replicate (n - length tokens_list) (replicate L pad)"
  have n: "length tokens_list \<le> n" "batch_size = int n"
    using assms(3) by (simp_all add: n_def)
  have g: "get_long_tensor pad tokens_list batch_size = Inr m"
    unfolding n(2) m_def L_def using assms(1) n(1) assms(4,5) by (rule get_long_tensor_ok)
  have len: "length m = nat batch_size"
    using n by (simp add: m_def)
  have mi: "m ! i = tokens_list ! i @ replicate (L - length (tokens_list ! i)) pad"
    if "i < length tokens_list" for i
    using that by (simp add: m_def nth_append)
  have mj: "m ! i = replicate L pad" if "i < length m" "length tokens_list \<le> i" for i
    using that by (simp add: m_def nth_append)
  have le: "length (tokens_list ! i) \<le> L" if "i < length tokens_list" for i
  proof -
    have "tokens_list ! i \<in> set tokens_list" using that by simp
    then show ?thesis unfolding L_def by (rule length_le_Max)
  qed
  have c1: "\<forall>i<length m. length (m ! i) = L"
  proof (intro allI impI)
    fix i assume i: "i < length m"
    show "length (m ! i) = L"
    proof (cases "i < length tokens_list")
      case True
      then show ?thesis using padded_row [OF le [OF True], of pad] by (simp only: mi)
    next
      case False
      then show ?thesis using mj [OF i] by simp
    qed
  qed
  have c2: "\<forall>i<length tokens_list.
          take (length (tokens_list ! i)) (m ! i) = tokens_list ! i \<and>
          (\<forall>j<length (m ! i). length (tokens_list ! i) \<le> j \<longrightarrow> m ! i ! j = pad)"
  proof (intro allI impI)
    fix i assume i: "i < length tokens_list"
    show "take (length (tokens_list ! i)) (m ! i) = tokens_list ! i \<and>
          (\<forall>j<length (m ! i). length (tokens_list ! i) \<le> j \<longrightarrow> m ! i ! j = pad)"
      unfolding mi [OF i] using padded_row [OF le [OF i], of pad] by blast
  qed
  have c3: "\<forall>i<length m. length tokens_list \<le> i \<longrightarrow> (\<forall>j<length (m ! i). m ! i ! j = pad)"
  proof (intro allI impI)
    fix i j assume "i < length m" "length tokens_list \<le> i" "j < length (m ! i)"
    then show "m ! i ! j = pad" using mj [of i] by simp
  qed
  have c4: "batch_size = int (length tokens_list) \<and>
       (\<forall>s\<in>set tokens_list. length s = length (hd tokens_list)) \<longrightarrow> m = tokens_list"
  proof
    assume a: "batch_size = int (length tokens_list) \<and>
       (\<forall>s\<in>set tokens_list. length s = length (hd tokens_list))"
    then have e: "\<forall>s\<in>set tokens_list. length s = length (hd tokens_list)" by blast
    have "L = length (hd tokens_list)"
      unfolding L_def using assms(1) e by (rule Max_length_const)
    then have "map (\<lambda>s. s @ replicate (L - length s) pad) tokens_list = map (\<lambda>s. s) tokens_list"
      using e by (intro map_cong) simp_all
    moreover have "n = length tokens_list" using a by (simp add: n_def)
    ultimately show "m = tokens_list" by (simp add: m_def)
  qed
  have "get_long_tensor pad tokens_list batch_size = Inr m \<and>
      length m = nat batch_size \<and>
      (\<forall>i<length m. length (m ! i) = L) \<and>
      (\<forall>i<length tokens_list.
          take (length (tokens_list ! i)) (m ! i) = tokens_list ! i \<and>
          (\<forall>j<length (m ! i). length (tokens_list ! i) \<le> j \<longrightarrow> m ! i ! j = pad)) \<and>
      (\<forall>i<length m. length tokens_list \<le> i \<longrightarrow> (\<forall>j<length (m ! i). m ! i ! j = pad)) \<and>
      (batch_size = int (length tokens_list) \<and>
       (\<forall>s\<in>set tokens_list. length s = length (hd tokens_list)) \<longrightarrow> m = tokens_list)"
    using conjI [OF g conjI [OF len conjI [OF c1 conjI [OF c2 conjI [OF c3 c4]]]]] .
  then show ?thesis unfolding L_def by (rule exI)
qed

lemma int64_small: "- 9223372036854775808 \<le> x \<Longrightarrow> x < 9223372036854775808 \<Longrightarrow> int64 x"
  by (simp add: int64_def)

lemma get_long_tensor_example:
  "get_long_tensor 0 [[2, 4, 5, 3], [2, 3]] 3 = Inr [[2, 4, 5, 3], [2, 3, 0, 0], [0, 0, 0, 0]]"
  by (simp add: get_long_tensor_def LongTensor_ok int64_small numeral_eq_Suc)

lemma get_long_tensor_example_equal:
  "get_long_tensor 0 [[1, 2], [3, 4]] 2 = Inr [[1, 2], [3, 4]]"
  by (simp add: get_long_tensor_def LongTensor_ok int64_small numeral_eq_Suc)

theorem get_long_tensor_padded_witness:
  "[[2, 4, 5, 3], [2, 3::int]] \<noteq> [] \<and> [2, 4, 5, 3::int] \<noteq> [] \<and> [2, 3::int] \<noteq> [] \<and>
   int (length [[2, 4, 5, 3], [2, 3::int]]) \<le> 3 \<and>
   list_all int64 [2, 4, 5, 3] \<and> list_all int64 [2, 3] \<and> int64 0 \<and>
   get_long_tensor 0 [[2, 4, 5, 3], [2, 3]] 3 = Inr [[2, 4, 5, 3], [2, 3, 0, 0], [0, 0, 0, 0]] \<and>
   (\<exists>m. get_long_tensor 0 [[2, 4, 5, 3], [2, 3]] 3 = Inr m \<and> length m = 3 \<and>
      length (m ! 0) = 4 \<and> length (m ! 1) = 4 \<and> length (m ! 2) = 4 \<and>
      take 4 (m ! 0) = [2, 4, 5, 3] \<and> take 2 (m ! 1) = [2, 3] \<and>
      m ! 1 ! 2 = 0 \<and> m ! 1 ! 3 = 0 \<and> m ! 2 ! 0 = 0) \<and>
   (2::int) = int (length [[1, 2], [3, 4::int]]) \<and>
   get_long_tensor 0 [[1, 2], [3, 4]] 2 = Inr [[1, 2], [3, 4]]"
proof -
  have h1: "[[2, 4, 5, 3], [2, 3::int]] \<noteq> []" by simp
  have h2: "\<forall>s\<in>set [[2, 4, 5, 3], [2, 3::int]]. s \<noteq> []" by simp
  have h3: "int (length [[2, 4, 5, 3], [2, 3::int]]) \<le> 3" by simp
  have h4: "\<forall>s\<in>set [[2, 4, 5, 3], [2, 3::int]]. list_all int64 s" by (simp add: int64_small)
  have h5: "int64 0" by (simp add: int64_small)
  have e1: "[[1, 2], [3, 4::int]] \<noteq> []" by simp
  have e2: "\<forall>s\<in>set [[1, 2], [3, 4::int]]. s \<noteq> []" by simp
  have e3: "int (length [[1, 2], [3, 4::int]]) \<le> 2" by simp
  have e4: "\<forall>s\<in>set [[1, 2], [3, 4::int]]. list_all int64 s" by (simp add: int64_small)
  show ?thesis
    using get_long_tensor_padded [OF h1 h2 h3 h4 h5] get_long_tensor_padded [OF e1 e2 e3 e4 h5]
    by (simp add: get_long_tensor_example get_long_tensor_example_equal int64_small)
qed

text \<open>
  The claim with \<open>batch_size\<close> left free fails: two sequences and \<open>batch_size = 1\<close> raise
  IndexError at the second row.
\<close>

theorem get_long_tensor_counterexample:
  "[[2, 4, 5, 3], [2, 3::int]] \<noteq> [] \<and> [2, 4, 5, 3::int] \<noteq> [] \<and> [2, 3::int] \<noteq> [] \<and>
   get_long_tensor 0 [[2, 4, 5, 3], [2, 3]] 1 = Inl IndexError"
  by (simp add: get_long_tensor_def LongTensor_ok int64_small)

subsection \<open>sort_all\<close>

lemma rows_index:
  assumes "length lens = length batch"
  shows "map (\<lambda>(l, i, x). i) (zip lens (zip [0..<length lens] batch)) = [0..<length lens]"
  using assms by (intro nth_equalityI) simp_all

lemma rows_entry:
  assumes "t \<in> set (zip lens (zip [0..<length lens] batch))"
  shows "fst (snd t) < length lens \<and> fst (snd t) < length batch \<and>
         fst t = lens ! fst (snd t) \<and> snd (snd t) = batch ! fst (snd t)"
proof -
  obtain j where j: "j < length lens" "j < length (zip [0..<length lens] batch)"
      "t = (lens ! j, zip [0..<length lens] batch ! j)"
    using assms by (auto simp: set_zip)
  then show ?thesis by simp
qed

lemma sort_all_Inr:
  assumes "batch \<noteq> []" and "length lens = length batch"
  shows "sort_all batch lens =
     Inr (map (\<lambda>(l, i, x). x)
            (rev (sort_key (\<lambda>(l, i, x). (l, i)) (zip lens (zip [0..<length lens] batch)))),
          map (\<lambda>(l, i, x). i)
            (rev (sort_key (\<lambda>(l, i, x). (l, i)) (zip lens (zip [0..<length lens] batch)))))"
proof -
  have "length (rev (sort_key (\<lambda>(l, i, x). (l, i)) (zip lens (zip [0..<length lens] batch))))
      = length batch"
    using assms(2) by simp
  then have "rev (sort_key (\<lambda>(l, i, x). (l, i)) (zip lens (zip [0..<length lens] batch))) \<noteq> []"
    using assms(1) by (metis length_0_conv)
  then show ?thesis by (simp add: sort_all_def Let_def)
qed

lemma sort_all_empty: "sort_all [] lens = Inl IndexError"
  by (simp add: sort_all_def)

lemma sort_all_props:
  assumes "sort_all batch lens = Inr (sorted_batch, idx)" and "length lens = length batch"
  shows "mset idx = mset [0..<length batch]"
    and "sorted_batch = map (\<lambda>i. batch ! i) idx"
    and "sorted_wrt (\<ge>) (map (\<lambda>i. lens ! i) idx)"
    and "\<forall>i<length idx. \<forall>j<length idx. i < j \<and> lens ! (idx ! i) = lens ! (idx ! j) \<longrightarrow> idx ! j < idx ! i"
proof -
  define U where "U = zip lens (zip [0..<length lens] batch)"
  define S where "S = rev (sort_key (\<lambda>(l, i, x). (l, i)) U)"
  have ne: "batch \<noteq> []" using assms(1) by (auto simp: sort_all_empty)
  have r: "sorted_batch = map (\<lambda>(l, i, x). x) S" "idx = map (\<lambda>(l, i, x). i) S"
    using assms(1) sort_all_Inr [OF ne assms(2)] by (simp_all add: S_def U_def)
  have "mset idx = image_mset (\<lambda>(l, i, x). i) (mset U)"
    by (simp add: r S_def)
  also have "\<dots> = mset (map (\<lambda>(l, i, x). i) U)" by simp
  also have "\<dots> = mset [0..<length batch]"
    unfolding U_def rows_index [OF assms(2)] using assms(2) by simp
  finally show "mset idx = mset [0..<length batch]" .
  have setS: "set S = set U" by (simp add: S_def)
  have ent: "fst t = lens ! fst (snd t) \<and> snd (snd t) = batch ! fst (snd t)"
    if "t \<in> set S" for t
  proof -
    have "t \<in> set (zip lens (zip [0..<length lens] batch))"
      using that by (simp only: setS U_def)
    then show ?thesis by (simp only: rows_entry)
  qed
  have "map (\<lambda>(l, i, x). x) S = map (\<lambda>t. batch ! fst (snd t)) S"
    using ent by (intro map_cong refl) (simp add: case_prod_beta)
  then show "sorted_batch = map (\<lambda>i. batch ! i) idx"
    by (simp add: r comp_def case_prod_beta)
  have ls: "map (\<lambda>i. lens ! i) idx = map (\<lambda>(l, i, x). l) S"
  proof -
    have "map (\<lambda>(l, i, x). l) S = map (\<lambda>t. lens ! fst (snd t)) S"
      using ent by (intro map_cong refl) (simp add: case_prod_beta)
    then show ?thesis by (simp add: r comp_def case_prod_beta)
  qed
  have "sorted (map (\<lambda>(l, i, x). (l, i)) (sort_key (\<lambda>(l, i, x). (l, i)) U))"
    by (rule sorted_sort_key)
  then have sk: "sorted_wrt (\<ge>) (map (\<lambda>(l, i, x). (l, i)) S)"
    by (simp add: S_def rev_map [symmetric] sorted_wrt_rev)
  then have "sorted_wrt (\<lambda>a b. fst a \<ge> fst b) (map (\<lambda>(l, i, x). (l, i)) S)"
    by (rule sorted_wrt_mono_rel [rotated]) (auto simp: less_eq_prod_def)
  then have "sorted_wrt (\<ge>) (map fst (map (\<lambda>(l, i, x). (l, i)) S))"
    by (simp add: sorted_wrt_map)
  moreover have "map fst (map (\<lambda>(l, i, x). (l, i)) S) = map (\<lambda>(l, i, x). l) S"
    by (simp add: comp_def case_prod_beta)
  ultimately show "sorted_wrt (\<ge>) (map (\<lambda>i. lens ! i) idx)"
    by (simp only: ls)
  show "\<forall>i<length idx. \<forall>j<length idx. i < j \<and> lens ! (idx ! i) = lens ! (idx ! j) \<longrightarrow> idx ! j < idx ! i"
  proof (intro allI impI)
    fix i j
    assume i: "i < length idx" and j: "j < length idx"
      and ij: "i < j \<and> lens ! (idx ! i) = lens ! (idx ! j)"
    have li: "length idx = length S" by (simp add: r(2))
    have si: "S ! i \<in> set S" "idx ! i = fst (snd (S ! i))"
      using i li by (simp_all add: r(2) case_prod_beta)
    have sj: "S ! j \<in> set S" "idx ! j = fst (snd (S ! j))"
      using j li by (simp_all add: r(2) case_prod_beta)
    have ki: "(\<lambda>(l, i, x). (l, i)) (S ! i) = (lens ! (idx ! i), idx ! i)"
      using ent [OF si(1)] by (simp add: si(2) case_prod_beta)
    have kj: "(\<lambda>(l, i, x). (l, i)) (S ! j) = (lens ! (idx ! j), idx ! j)"
      using ent [OF sj(1)] by (simp add: sj(2) case_prod_beta)
    have jl: "j < length (map (\<lambda>(l, i, x). (l, i)) S)" using j li by simp
    have "map (\<lambda>(l, i, x). (l, i)) S ! j \<le> map (\<lambda>(l, i, x). (l, i)) S ! i"
      using sorted_wrt_nth_less [OF sk _ jl, of i] ij by simp
    then have "(lens ! (idx ! j), idx ! j) \<le> (lens ! (idx ! i), idx ! i)"
      using ki kj i j li by simp
    then have le: "idx ! j \<le> idx ! i" using ij by (simp add: less_eq_prod_def)
    have "distinct idx"
      using mset_eq_imp_distinct_iff [OF \<open>mset idx = mset [0..<length batch]\<close>] by simp
    then have "idx ! i \<noteq> idx ! j" using i j ij by (simp add: nth_eq_iff_index_eq)
    then show "idx ! j < idx ! i" using le by simp
  qed
qed


subsection \<open>The unsorting step\<close>

lemma perm_upt_props:
  assumes "mset idx = mset [0..<n]"
  shows "length idx = n" and "distinct idx" and "set idx = {0..<n}"
proof -
  show "length idx = n" using assms by (metis size_mset length_upt diff_zero)
  show "distinct idx" using mset_eq_imp_distinct_iff [OF assms] by simp
  show "set idx = {0..<n}" using mset_eq_setD [OF assms] by simp
qed

lemma sort_key_fst_perm:
  assumes "mset idx = mset [0..<n]" and "length ys = n"
  shows "map fst (sort_key fst (zip idx ys)) = [0..<n]"
proof -
  have l: "length idx = n" using assms(1) by (rule perm_upt_props)
  have "map fst (zip idx ys) = idx" using l assms(2) by (simp add: map_fst_zip)
  then have "mset (map fst (sort_key fst (zip idx ys))) = mset idx"
    by (metis mset_map mset_sort)
  then have m: "mset (map fst (sort_key fst (zip idx ys))) = mset [0..<n]"
    by (simp only: assms(1))
  have "sort [0..<n] = map fst (sort_key fst (zip idx ys))"
    using m by (rule properties_for_sort) (rule sorted_sort_key)
  moreover have "sort [0..<n] = [0..<n]" by (simp add: sorted_sort_id)
  ultimately show ?thesis by simp
qed

lemma sort_key_fst_perm_nth:
  assumes "mset idx = mset [0..<n]" and "length ys = n" and "i < n"
  shows "sort_key fst (zip idx ys) ! (idx ! i) = (idx ! i, ys ! i)"
proof -
  define R where "R = sort_key fst (zip idx ys)"
  have l: "length idx = n" using assms(1) by (rule perm_upt_props)
  have fR: "map fst R = [0..<n]"
    unfolding R_def using assms(1,2) by (rule sort_key_fst_perm)
  have lR: "length R = n" using l assms(2) by (simp add: R_def)
  have "i < length (zip idx ys)" using l assms(2,3) by simp
  then have "zip idx ys ! i \<in> set (zip idx ys)" by (rule nth_mem)
  moreover have "zip idx ys ! i = (idx ! i, ys ! i)" using l assms(2,3) by simp
  ultimately have "(idx ! i, ys ! i) \<in> set R" by (simp add: R_def)
  then obtain k where k: "k < length R" "R ! k = (idx ! i, ys ! i)"
    by (auto simp: in_set_conv_nth)
  have "fst (R ! k) = map fst R ! k" using k(1) by simp
  also have "\<dots> = k" using k(1) lR by (simp add: fR)
  finally have "k = idx ! i" using k(2) by simp
  then show ?thesis using k(2) by (simp add: R_def)
qed

lemma predict_unsort_perm:
  assumes "mset idx = mset [0..<n]" and "length ps = n" and "length qs = n" and "0 < n"
  shows "\<exists>ps' qs'. predict_unsort idx ps qs = Inr (ps', qs') \<and>
           length ps' = n \<and> length qs' = n \<and>
           (\<forall>i<n. ps' ! (idx ! i) = ps ! i \<and> qs' ! (idx ! i) = qs ! i)"
proof -
  define R where "R = sort_key fst (zip idx (zip ps qs))"
  have l: "length idx = n" using assms(1) by (rule perm_upt_props)
  have lz: "length (zip ps qs) = n" using assms(2,3) by simp
  have lR: "length R = n" using l lz by (simp add: R_def)
  then have ne: "R \<noteq> []" using assms(4) by auto
  have u: "predict_unsort idx ps qs = Inr (map (\<lambda>(i, p, q). p) R, map (\<lambda>(i, p, q). q) R)"
    using ne by (simp add: predict_unsort_def Let_def R_def)
  have nth: "map (\<lambda>(i, p, q). p) R ! (idx ! i) = ps ! i \<and>
             map (\<lambda>(i, p, q). q) R ! (idx ! i) = qs ! i" if i: "i < n" for i
  proof -
    have "idx ! i \<in> set idx" using i l by simp
    then have b: "idx ! i < length R" using perm_upt_props(3) [OF assms(1)] lR by simp
    have "R ! (idx ! i) = (idx ! i, zip ps qs ! i)"
      unfolding R_def using assms(1) lz i by (rule sort_key_fst_perm_nth)
    then show ?thesis using b i assms(2,3) by simp
  qed
  have "predict_unsort idx ps qs = Inr (map (\<lambda>(i, p, q). p) R, map (\<lambda>(i, p, q). q) R) \<and>
      length (map (\<lambda>(i, p, q). p) R) = n \<and> length (map (\<lambda>(i, p, q). q) R) = n \<and>
      (\<forall>i<n. map (\<lambda>(i, p, q). p) R ! (idx ! i) = ps ! i \<and>
              map (\<lambda>(i, p, q). q) R ! (idx ! i) = qs ! i)"
    using u lR nth by simp
  then show ?thesis by blast
qed

lemma perm_nth_eq:
  assumes "mset idx = mset [0..<n]" and "length xs = n" and "length ys = n"
    and "\<forall>i<n. xs ! (idx ! i) = ys ! (idx ! i)"
  shows "xs = ys"
proof (rule nth_equalityI)
  show "length xs = length ys" using assms(2,3) by simp
next
  fix j
  assume "j < length xs"
  then have "j \<in> set idx" using perm_upt_props(3) [OF assms(1)] assms(2) by simp
  then obtain i where "i < length idx" "idx ! i = j" by (auto simp: in_set_conv_nth)
  then show "xs ! j = ys ! j"
    using assms(4) perm_upt_props(1) [OF assms(1)] by auto
qed

lemma predict_unsort_recovers:
  assumes "mset idx = mset [0..<length batch]" and "batch \<noteq> []"
  shows "predict_unsort idx (map (\<lambda>i. f (batch ! i)) idx) (map (\<lambda>i. h (batch ! i)) idx)
           = Inr (map f batch, map h batch)"
proof -
  let ?n = "length batch"
  have l: "length idx = ?n" using assms(1) by (rule perm_upt_props)
  have n: "0 < ?n" using assms(2) by simp
  obtain ps' qs' where
    u: "predict_unsort idx (map (\<lambda>i. f (batch ! i)) idx) (map (\<lambda>i. h (batch ! i)) idx)
          = Inr (ps', qs')"
    and lp: "length ps' = ?n" and lq: "length qs' = ?n"
    and nth: "\<forall>i<?n. ps' ! (idx ! i) = map (\<lambda>i. f (batch ! i)) idx ! i \<and>
                     qs' ! (idx ! i) = map (\<lambda>i. h (batch ! i)) idx ! i"
    using predict_unsort_perm [OF assms(1) _ _ n, of "map (\<lambda>i. f (batch ! i)) idx"
        "map (\<lambda>i. h (batch ! i)) idx"] l by auto
  have bnd: "idx ! i < ?n" if "i < ?n" for i
  proof -
    have "idx ! i \<in> set idx" using that l by simp
    then show ?thesis using perm_upt_props(3) [OF assms(1)] by simp
  qed
  have "ps' = map f batch"
    using assms(1) lp
  proof (rule perm_nth_eq)
    show "length (map f batch) = ?n" by simp
    show "\<forall>i<?n. ps' ! (idx ! i) = map f batch ! (idx ! i)"
      using nth l bnd by simp
  qed
  moreover have "qs' = map h batch"
    using assms(1) lq
  proof (rule perm_nth_eq)
    show "length (map h batch) = ?n" by simp
    show "\<forall>i<?n. qs' ! (idx ! i) = map h batch ! (idx ! i)"
      using nth l bnd by simp
  qed
  ultimately show ?thesis using u by simp
qed

subsection \<open>__getitem__\<close>

lemma getitem_TypeError:
  "\<not> isinstance_int k \<Longrightarrow> DataLoader_getitem L k g = (Inl TypeError, g)"
  by (simp add: DataLoader_getitem_def)

lemma getitem_IndexError:
  "isinstance_int k \<Longrightarrow> int_of_key k < 0 \<or> int (length (self_data L)) \<le> int_of_key k \<Longrightarrow>
     DataLoader_getitem L k g = (Inl IndexError, g)"
  by (simp add: DataLoader_getitem_def)

lemma getitem_AssertionError:
  "isinstance_int k \<Longrightarrow> 0 \<le> int_of_key k \<Longrightarrow> int_of_key k < int (length (self_data L)) \<Longrightarrow>
     self_data L ! nat (int_of_key k) = [] \<Longrightarrow>
     DataLoader_getitem L k g = (Inl AssertionError, g)"
  by (simp add: DataLoader_getitem_def Let_def)

lemma getitem_Inr_inv:
  assumes "DataLoader_getitem L k g = (Inr out, g')"
  shows "isinstance_int k" and "0 \<le> int_of_key k"
    and "int_of_key k < int (length (self_data L))"
    and "self_data L ! nat (int_of_key k) \<noteq> []"
proof -
  show a: "isinstance_int k"
    using assms getitem_TypeError [of k L g] by auto
  show b: "0 \<le> int_of_key k"
    using assms a getitem_IndexError [of k L g] by (cases "0 \<le> int_of_key k") auto
  show c: "int_of_key k < int (length (self_data L))"
    using assms a getitem_IndexError [of k L g]
    by (cases "int_of_key k < int (length (self_data L))") auto
  show "self_data L ! nat (int_of_key k) \<noteq> []"
    using assms a b c getitem_AssertionError [of k L g] by auto
qed

lemma set_range_from: "0 < b \<Longrightarrow> i \<in> set (range_from i0 n b) \<Longrightarrow> i < n"
proof (induction i0 n b rule: range_from.induct)
  case (1 i0 n step)
  show ?case
  proof (cases "n \<le> i0")
    case True
    then show ?thesis using 1(3) by (simp add: range_from_stop)
  next
    case False
    then show ?thesis using 1 by (auto simp: range_from_step)
  qed
qed

lemma chunk_nonempty:
  assumes "chunk xs bs = Inr batches"
  shows "[] \<notin> set batches"
proof (cases "0 < bs")
  case True
  have "take (nat bs) (drop i xs) \<noteq> []" if "i \<in> set (range_from 0 (length xs) (nat bs))" for i
    using set_range_from [OF _ that] True by simp
  then show ?thesis using assms chunk_pos [OF True, of xs] by auto
next
  case False
  then show ?thesis using assms
    by (auto simp: chunk_def py_range_step_def and_then_def split: if_splits)
qed

lemma init_batches_nonempty:
  assumes "DataLoader_init C raw batch_size opt' evaluation shuffled st = (Inr L, st')"
  shows "[] \<notin> set (self_data L)"
proof -
  obtain r st1 where p: "preprocess C (opt_lower opt') raw st = (r, st1)" by (cases "preprocess C (opt_lower opt') raw st")
  show ?thesis
  proof (cases r)
    case (Inl e)
    then show ?thesis using assms p by (simp add: DataLoader_init_def)
  next
    case (Inr processed)
    define data' where
      "data' = (if \<not> evaluation then map (\<lambda>i. processed ! i) shuffled else processed)"
    show ?thesis
    proof (cases "chunk data' batch_size")
      case (Inl e)
      then show ?thesis using assms p Inr
        by (simp add: DataLoader_init_def Let_def and_then_def data'_def)
    next
      case c: (Inr batches)
      then have "self_data L = batches" using assms p Inr
        by (auto simp: DataLoader_init_def Let_def and_then_def data'_def)
      then show ?thesis using chunk_nonempty [OF c] by simp
    qed
  qed
qed

lemma get_long_tensor_cases':
  assumes "tokens_list \<noteq> []" and "length tokens_list = n"
  shows "(\<exists>m. get_long_tensor pad tokens_list (int n) = Inr m) \<or>
         get_long_tensor pad tokens_list (int n) = Inl TorchError"
  using get_long_tensor_cases [OF assms(1), of pad] assms(2) by simp

lemma get_long_tensor_ok':
  assumes "tokens_list \<noteq> []" and "length tokens_list = n"
    and "\<forall>s\<in>set tokens_list. list_all int64 s" and "int64 pad"
  shows "\<exists>m. get_long_tensor pad tokens_list (int n) = Inr m"
  using get_long_tensor_ok [OF assms(1) _ assms(3,4), of n] assms(2) by simp

lemma word_dropout_all_int64:
  assumes "\<forall>s\<in>set sents. list_all int64 s" and "int64 unk"
  shows "\<forall>s\<in>set (fst (word_dropout_all unk sents dropout g)). list_all int64 s"
proof -
  have r: "list_all2 (list_all2 (\<lambda>y x. (y = x \<or> y = unk) \<and> (x = unk \<longrightarrow> y = unk)))
     (fst (word_dropout_all unk sents dropout g)) sents"
    by (rule word_dropout_all_rel)
  show ?thesis
  proof
    fix s assume "s \<in> set (fst (word_dropout_all unk sents dropout g))"
    then obtain i where i: "i < length (fst (word_dropout_all unk sents dropout g))"
      "s = fst (word_dropout_all unk sents dropout g) ! i"
      by (auto simp: in_set_conv_nth)
    have l: "i < length sents" using i(1) list_all2_lengthD [OF r] by simp
    have rs: "list_all2 (\<lambda>y x. (y = x \<or> y = unk) \<and> (x = unk \<longrightarrow> y = unk)) s (sents ! i)"
      unfolding i(2) using r i(1) by (rule list_all2_nthD)
    have o: "list_all int64 (sents ! i)" using assms(1) l by simp
    show "list_all int64 s"
      unfolding list_all_length
    proof (intro allI impI)
      fix j assume j: "j < length s"
      then have "s ! j = sents ! i ! j \<or> s ! j = unk"
        using list_all2_nthD [OF rs j] by blast
      moreover have "int64 (sents ! i ! j)"
        using o j list_all2_lengthD [OF rs] by (simp add: list_all_length)
      ultimately show "int64 (s ! j)" using assms(2) by auto
    qed
  qed
qed

text \<open>
  A valid key on a non-empty batch: what a returned batch holds, that the only error
  left is the overflow error of torch, and that ids which fit 64 bits exclude it.
\<close>

lemma getitem_valid:
  assumes k: "isinstance_int k" "0 \<le> int_of_key k" "int_of_key k < int (length (self_data L))"
    and b: "self_data L ! nat (int_of_key k) = batch" "batch \<noteq> []"
    and s: "sort_all batch (map (\<lambda>x. length (ex_tokens x)) batch) = Inr (sb, idx)"
    and w: "wg = (if \<not> self_eval L
                  then word_dropout_all (self_UNK_ID L) (map ex_tokens sb)
                         (opt_word_dropout (self_opt L)) g
                  else (map ex_tokens sb, g))"
  shows "DataLoader_getitem L k g = (Inr out, g') \<Longrightarrow>
      g' = snd wg \<and>
      get_long_tensor (self_PAD_ID L) (fst wg) (int (length batch)) = Inr (out_words out) \<and>
      out_masks out = map (map (\<lambda>w. w = 0)) (out_words out) \<and>
      get_long_tensor (self_PAD_ID L) (map ex_pos sb) (int (length batch)) = Inr (out_pos out) \<and>
      get_long_tensor (self_PAD_ID L) (map ex_ner sb) (int (length batch)) = Inr (out_ner out) \<and>
      get_long_tensor (self_PAD_ID L) (map ex_deprel sb) (int (length batch)) = Inr (out_deprel out) \<and>
      get_long_tensor (self_PAD_ID L) (map ex_subj_positions sb) (int (length batch))
        = Inr (out_subj_positions out) \<and>
      get_long_tensor (self_PAD_ID L) (map ex_obj_positions sb) (int (length batch))
        = Inr (out_obj_positions out) \<and>
      get_long_tensor (self_PAD_ID L) (map ex_inst_position sb) (int (length batch))
        = Inr (out_src_pos out) \<and>
      out_rels out = map ex_relation sb \<and>
      out_orig_idx out = idx"
    and "(\<exists>out. fst (DataLoader_getitem L k g) = Inr out) \<or>
         fst (DataLoader_getitem L k g) = Inl TorchError"
    and "int64 (self_PAD_ID L) \<Longrightarrow> \<forall>x\<in>set batch. fits_int64 x \<Longrightarrow>
         self_eval L \<or> int64 (self_UNK_ID L) \<Longrightarrow>
         \<exists>out. fst (DataLoader_getitem L k g) = Inr out"
proof -
  define pad where "pad = self_PAD_ID L"
  define n where "n = length batch"
  define chain where "chain =
     and_then (get_long_tensor pad (fst wg) (int n)) (\<lambda>words.
     and_then (get_long_tensor pad (map ex_pos sb) (int n)) (\<lambda>pos.
     and_then (get_long_tensor pad (map ex_ner sb) (int n)) (\<lambda>ner.
     and_then (get_long_tensor pad (map ex_deprel sb) (int n)) (\<lambda>deprel.
     and_then (get_long_tensor pad (map ex_subj_positions sb) (int n)) (\<lambda>subj_positions.
     and_then (get_long_tensor pad (map ex_obj_positions sb) (int n)) (\<lambda>obj_positions.
     and_then (get_long_tensor pad (map ex_inst_position sb) (int n)) (\<lambda>src_pos.
     and_then (LongTensor (map ex_relation sb)) (\<lambda>rels.
       Inr \<lparr>out_words = words,
            out_masks = map (map (\<lambda>w. w = 0)) words,
            out_pos = pos, out_ner = ner, out_deprel = deprel,
            out_subj_positions = subj_positions,
            out_obj_positions = obj_positions,
            out_src_pos = src_pos,
            out_rels = rels,
            out_orig_idx = idx\<rparr>))))))))"
  have u: "DataLoader_getitem L k g = (chain, snd wg)"
  proof (cases "self_eval L")
    case True
    then have wv: "wg = (map ex_tokens sb, g)" by (simp add: w)
    show ?thesis
      using k b(2) True
      by (simp add: DataLoader_getitem_def Let_def b(1) s chain_def pad_def n_def wv)
  next
    case False
    then have wv: "word_dropout_all (self_UNK_ID L) (map ex_tokens sb)
        (opt_word_dropout (self_opt L)) g = wg" by (simp add: w)
    show ?thesis
      using k b(2) False
      by (simp add: DataLoader_getitem_def Let_def b(1) s chain_def pad_def n_def wv
          case_prod_beta)
  qed
  have lb: "length (map (\<lambda>x. length (ex_tokens x)) batch) = length batch" by simp
  have sbv: "sb = map (\<lambda>i. batch ! i) idx" and pm: "mset idx = mset [0..<length batch]"
    using sort_all_props [OF s lb] by simp_all
  have lsb: "length sb = n"
    using perm_upt_props(1) [OF pm] by (simp add: sbv n_def)
  have ne: "sb \<noteq> []" using lsb b(2) by (auto simp: n_def)
  have lw: "length (fst wg) = n"
  proof (cases "self_eval L")
    case True
    then show ?thesis using lsb by (simp add: w)
  next
    case False
    have "length (map length (fst wg)) = length (map length (map ex_tokens sb))"
      using False by (simp only: w if_True simp_thms word_dropout_all_lengths)
    then show ?thesis using lsb by simp
  qed
  have nw: "fst wg \<noteq> []" using lw lsb ne by auto
  {
    assume a: "DataLoader_getitem L k g = (Inr out, g')"
    then have c: "chain = Inr out" and g': "g' = snd wg" using u by simp_all
    from c have "get_long_tensor pad (fst wg) (int n) = Inr (out_words out) \<and>
      out_masks out = map (map (\<lambda>w. w = 0)) (out_words out) \<and>
      get_long_tensor pad (map ex_pos sb) (int n) = Inr (out_pos out) \<and>
      get_long_tensor pad (map ex_ner sb) (int n) = Inr (out_ner out) \<and>
      get_long_tensor pad (map ex_deprel sb) (int n) = Inr (out_deprel out) \<and>
      get_long_tensor pad (map ex_subj_positions sb) (int n) = Inr (out_subj_positions out) \<and>
      get_long_tensor pad (map ex_obj_positions sb) (int n) = Inr (out_obj_positions out) \<and>
      get_long_tensor pad (map ex_inst_position sb) (int n) = Inr (out_src_pos out) \<and>
      out_rels out = map ex_relation sb \<and>
      out_orig_idx out = idx"
      unfolding chain_def by (elim and_then_InrE) (auto dest!: LongTensor_Inr)
    then show "g' = snd wg \<and>
      get_long_tensor (self_PAD_ID L) (fst wg) (int (length batch)) = Inr (out_words out) \<and>
      out_masks out = map (map (\<lambda>w. w = 0)) (out_words out) \<and>
      get_long_tensor (self_PAD_ID L) (map ex_pos sb) (int (length batch)) = Inr (out_pos out) \<and>
      get_long_tensor (self_PAD_ID L) (map ex_ner sb) (int (length batch)) = Inr (out_ner out) \<and>
      get_long_tensor (self_PAD_ID L) (map ex_deprel sb) (int (length batch)) = Inr (out_deprel out) \<and>
      get_long_tensor (self_PAD_ID L) (map ex_subj_positions sb) (int (length batch))
        = Inr (out_subj_positions out) \<and>
      get_long_tensor (self_PAD_ID L) (map ex_obj_positions sb) (int (length batch))
        = Inr (out_obj_positions out) \<and>
      get_long_tensor (self_PAD_ID L) (map ex_inst_position sb) (int (length batch))
        = Inr (out_src_pos out) \<and>
      out_rels out = map ex_relation sb \<and>
      out_orig_idx out = idx"
      using g' unfolding pad_def n_def by blast
  }
  have lm: "length (map f sb) = n" for f :: "example \<Rightarrow> int list" using lsb by simp
  have nm: "map f sb \<noteq> []" for f :: "example \<Rightarrow> int list" using ne by simp
  have "(\<exists>y. chain = Inr y) \<or> chain = Inl TorchError"
    unfolding chain_def
    by (intro and_then_cases get_long_tensor_cases' nw lw nm lm)
      (use LongTensor_cases in auto)
  then show "(\<exists>out. fst (DataLoader_getitem L k g) = Inr out) \<or>
         fst (DataLoader_getitem L k g) = Inl TorchError"
    by (simp add: u)
  {
    assume p: "int64 (self_PAD_ID L)" and f: "\<forall>x\<in>set batch. fits_int64 x"
      and e: "self_eval L \<or> int64 (self_UNK_ID L)"
    have sub: "set sb \<subseteq> set batch"
    proof
      fix x assume "x \<in> set sb"
      then obtain i where "i \<in> set idx" "x = batch ! i" by (auto simp: sbv)
      then show "x \<in> set batch" using perm_upt_props(3) [OF pm] by simp
    qed
    then have fs: "\<forall>x\<in>set sb. fits_int64 x" using f by blast
    have tk: "\<forall>s\<in>set (map ex_tokens sb). list_all int64 s"
      using fs by (simp add: fits_int64_def)
    have i1: "\<forall>s\<in>set (fst wg). list_all int64 s"
    proof (cases "self_eval L")
      case True
      then show ?thesis using tk by (simp add: w)
    next
      case False
      then have "int64 (self_UNK_ID L)" using e by simp
      from word_dropout_all_int64 [OF tk this] show ?thesis using False by (simp add: w)
    qed
    have p': "int64 pad" using p by (simp add: pad_def)
    obtain m1 where m1: "get_long_tensor pad (fst wg) (int n) = Inr m1"
      using get_long_tensor_ok' [OF nw lw i1 p'] by blast
    obtain m2 where m2: "get_long_tensor pad (map ex_pos sb) (int n) = Inr m2"
      using get_long_tensor_ok' [OF nm lm _ p', of ex_pos] fs by (auto simp: fits_int64_def)
    obtain m3 where m3: "get_long_tensor pad (map ex_ner sb) (int n) = Inr m3"
      using get_long_tensor_ok' [OF nm lm _ p', of ex_ner] fs by (auto simp: fits_int64_def)
    obtain m4 where m4: "get_long_tensor pad (map ex_deprel sb) (int n) = Inr m4"
      using get_long_tensor_ok' [OF nm lm _ p', of ex_deprel] fs by (auto simp: fits_int64_def)
    obtain m5 where m5: "get_long_tensor pad (map ex_subj_positions sb) (int n) = Inr m5"
      using get_long_tensor_ok' [OF nm lm _ p', of ex_subj_positions] fs
      by (auto simp: fits_int64_def)
    obtain m6 where m6: "get_long_tensor pad (map ex_obj_positions sb) (int n) = Inr m6"
      using get_long_tensor_ok' [OF nm lm _ p', of ex_obj_positions] fs
      by (auto simp: fits_int64_def)
    obtain m7 where m7: "get_long_tensor pad (map ex_inst_position sb) (int n) = Inr m7"
      using get_long_tensor_ok' [OF nm lm _ p', of ex_inst_position] fs
      by (auto simp: fits_int64_def)
    have "list_all int64 (map ex_relation sb)"
      using fs by (simp add: fits_int64_def list_all_iff)
    then have m8: "LongTensor (map ex_relation sb) = Inr (map ex_relation sb)"
      by (rule LongTensor_ok)
    have "\<exists>y. chain = Inr y"
      by (simp add: chain_def m1 m2 m3 m4 m5 m6 m7 m8)
    then show "\<exists>out. fst (DataLoader_getitem L k g) = Inr out"
      by (simp add: u)
  }
qed

lemma getitem_Inr_facts:
  assumes "DataLoader_getitem L k g = (Inr out, g')"
  shows "\<exists>sb. sort_all (self_data L ! nat (int_of_key k))
            (map (\<lambda>x. length (ex_tokens x)) (self_data L ! nat (int_of_key k)))
            = Inr (sb, out_orig_idx out) \<and>
      g' = snd (if \<not> self_eval L
                  then word_dropout_all (self_UNK_ID L) (map ex_tokens sb)
                         (opt_word_dropout (self_opt L)) g
                  else (map ex_tokens sb, g)) \<and>
      get_long_tensor (self_PAD_ID L)
         (fst (if \<not> self_eval L
                  then word_dropout_all (self_UNK_ID L) (map ex_tokens sb)
                         (opt_word_dropout (self_opt L)) g
                  else (map ex_tokens sb, g)))
         (int (length (self_data L ! nat (int_of_key k)))) = Inr (out_words out) \<and>
      out_masks out = map (map (\<lambda>w. w = 0)) (out_words out) \<and>
      get_long_tensor (self_PAD_ID L) (map ex_pos sb)
         (int (length (self_data L ! nat (int_of_key k)))) = Inr (out_pos out) \<and>
      get_long_tensor (self_PAD_ID L) (map ex_ner sb)
         (int (length (self_data L ! nat (int_of_key k)))) = Inr (out_ner out) \<and>
      get_long_tensor (self_PAD_ID L) (map ex_deprel sb)
         (int (length (self_data L ! nat (int_of_key k)))) = Inr (out_deprel out) \<and>
      get_long_tensor (self_PAD_ID L) (map ex_subj_positions sb)
         (int (length (self_data L ! nat (int_of_key k)))) = Inr (out_subj_positions out) \<and>
      get_long_tensor (self_PAD_ID L) (map ex_obj_positions sb)
         (int (length (self_data L ! nat (int_of_key k)))) = Inr (out_obj_positions out) \<and>
      get_long_tensor (self_PAD_ID L) (map ex_inst_position sb)
         (int (length (self_data L ! nat (int_of_key k)))) = Inr (out_src_pos out) \<and>
      out_rels out = map ex_relation sb"
proof -
  define batch where "batch = self_data L ! nat (int_of_key k)"
  note k = getitem_Inr_inv(1-3) [OF assms]
  have ne: "batch \<noteq> []" using getitem_Inr_inv(4) [OF assms] by (simp add: batch_def)
  have lb: "length (map (\<lambda>x. length (ex_tokens x)) batch) = length batch" by simp
  obtain sb idx where s: "sort_all batch (map (\<lambda>x. length (ex_tokens x)) batch) = Inr (sb, idx)"
    using sort_all_Inr [OF ne lb] by blast
  define wg where "wg = (if \<not> self_eval L
                  then word_dropout_all (self_UNK_ID L) (map ex_tokens sb)
                         (opt_word_dropout (self_opt L)) g
                  else (map ex_tokens sb, g))"
  note r = getitem_valid(1) [OF k batch_def [symmetric] ne s wg_def assms]
  have i: "idx = out_orig_idx out" using r by simp
  have "sort_all batch (map (\<lambda>x. length (ex_tokens x)) batch) = Inr (sb, out_orig_idx out) \<and>
      g' = snd wg \<and>
      get_long_tensor (self_PAD_ID L) (fst wg) (int (length batch)) = Inr (out_words out) \<and>
      out_masks out = map (map (\<lambda>w. w = 0)) (out_words out) \<and>
      get_long_tensor (self_PAD_ID L) (map ex_pos sb) (int (length batch)) = Inr (out_pos out) \<and>
      get_long_tensor (self_PAD_ID L) (map ex_ner sb) (int (length batch)) = Inr (out_ner out) \<and>
      get_long_tensor (self_PAD_ID L) (map ex_deprel sb) (int (length batch)) = Inr (out_deprel out) \<and>
      get_long_tensor (self_PAD_ID L) (map ex_subj_positions sb) (int (length batch))
        = Inr (out_subj_positions out) \<and>
      get_long_tensor (self_PAD_ID L) (map ex_obj_positions sb) (int (length batch))
        = Inr (out_obj_positions out) \<and>
      get_long_tensor (self_PAD_ID L) (map ex_inst_position sb) (int (length batch))
        = Inr (out_src_pos out) \<and>
      out_rels out = map ex_relation sb"
    using s r unfolding i by blast
  then show ?thesis unfolding wg_def batch_def by (rule exI)
qed

subsection \<open>The first batch of the small data set\<close>

lemma sort_all_two: "l1 < l2 \<Longrightarrow> sort_all [a, b] [l1, l2] = Inr ([b, a], [1, 0])"
  by (simp add: sort_all_def less_eq_prod_def upt_rec)

lemma e0_fields:
  "ex_tokens e0 = [2, 4, 5, 3]" "ex_pos e0 = [2, 3, 4, 2]" "ex_ner e0 = [3, 2, 2, 4]"
  "ex_deprel e0 = [2, 3, 4, 5]" "ex_subj_positions e0 = [0, 1, 2, 2]"
  "ex_obj_positions e0 = [- 2, - 2, - 1, 0]" "ex_inst_position e0 = [1, 2, 3, 4]"
  "ex_relation e0 = 1"
  by (simp_all add: e0_def)

lemma e1_fields:
  "ex_tokens e1 = [2, 2, 4, 5, 3, 3]" "ex_pos e1 = [2, 2, 3, 4, 2, 2]"
  "ex_ner e1 = [3, 3, 2, 2, 4, 4]" "ex_deprel e1 = [1, 2, 3, 4, 1, 5]"
  "ex_subj_positions e1 = [0, 0, 1, 2, 2, 3]"
  "ex_obj_positions e1 = [- 3, - 2, - 2, - 1, 0, 0]"
  "ex_inst_position e1 = [1, 2, 3, 4, 5, 6]" "ex_relation e1 = 1"
  by (simp_all add: e1_def)

lemma sort_all_one: "sort_all [a] [l] = Inr ([a], [0])"
  by (simp add: sort_all_def)

lemma e2_fields:
  "ex_tokens e2 = [2, 3]" "ex_pos e2 = [1, 3]" "ex_ner e2 = [2, 2]"
  "ex_deprel e2 = [2, 3]" "ex_subj_positions e2 = [0, 1]"
  "ex_obj_positions e2 = [- 1, 0]" "ex_inst_position e2 = [1, 2]"
  "ex_relation e2 = 0"
  by (simp_all add: e2_def)

lemma fits_examples: "fits_int64 e0" "fits_int64 e1" "fits_int64 e2"
  by (simp_all add: fits_int64_def e0_fields e1_fields e2_fields int64_small)

lemma get_long_tensor_two:
  "list_all int64 [a1, a2, a3, a4, a5, a6] \<Longrightarrow> list_all int64 [b1, b2, b3, b4] \<Longrightarrow>
   get_long_tensor 0 [[a1, a2, a3, a4, a5, a6], [b1, b2, b3, b4]] 2 =
     Inr [[a1, a2, a3, a4, a5, a6], [b1, b2, b3, b4, 0, 0]]"
  by (simp add: get_long_tensor_def LongTensor_ok int64_small numeral_eq_Suc)

lemma getitem_example: "DataLoader_getitem L0 (IntKey 0) g0 = (Inr out0, g0)"
  by (simp add: DataLoader_getitem_def L0_def Let_def e0_fields e1_fields sort_all_two
      get_long_tensor_two LongTensor_ok int64_small out0_def)

lemma init_example:
  "DataLoader_init C0 [d0, d1, d2] 2 opt0 True [] st0 =
     (Inr L0,
      st0 @ [[''SUBJ-PERSON'', ''lives'', ''in'', ''OBJ-CITY''],
             [''SUBJ-PERSON'', ''SUBJ-PERSON'', ''lives'', ''in'', ''OBJ-CITY'', ''OBJ-CITY''],
             [''SUBJ-PERSON'', ''OBJ-CITY'']])"
proof -
  have "range_from 0 (length [e0, e1, e2]) 2 = [0, 2]"
    by (simp add: range_from_step range_from_stop)
  then have c: "chunk [e0, e1, e2] 2 = Inr [[e0, e1], [e2]]"
    by (simp add: chunk_pos)
  have p: "preprocess C0 (opt_lower opt0) [d0, d1, d2] st0 =
     (Inr [e0, e1, e2],
      st0 @ [[''SUBJ-PERSON'', ''lives'', ''in'', ''OBJ-CITY''],
             [''SUBJ-PERSON'', ''SUBJ-PERSON'', ''lives'', ''in'', ''OBJ-CITY'', ''OBJ-CITY''],
             [''SUBJ-PERSON'', ''OBJ-CITY'']])"
    by (simp only: opt0_lower preprocess_example)
  show ?thesis
    unfolding DataLoader_init_def p by (simp add: c and_then_def L0_def C0_def)
qed

text \<open>
  C8, as amended. On a loader built by \<open>__init__\<close>, \<open>__getitem__\<close> raises TypeError for
  every key that is not an \<open>int\<close>; for an \<open>int\<close> key it raises IndexError exactly when the
  key is negative or not below the number of batches (a negative key does not count from
  the end); for every other key it returns the tuple of batch tensors when \<open>PAD_ID\<close>, the
  ids of the batch's examples and, when training, \<open>UNK_ID\<close> fit 64 bits, and otherwise
  the only error it can raise is the overflow error of torch.
\<close>

theorem getitem_key_errors:
  assumes "DataLoader_init C raw batch_size opt' evaluation shuffled st = (Inr L, st')"
  shows "(\<not> isinstance_int k \<longrightarrow> fst (DataLoader_getitem L k g) = Inl TypeError) \<and>
         (isinstance_int k \<longrightarrow>
            (fst (DataLoader_getitem L k g) = Inl IndexError \<longleftrightarrow>
               int_of_key k < 0 \<or> int (DataLoader_len L) \<le> int_of_key k)) \<and>
         (isinstance_int k \<and> 0 \<le> int_of_key k \<and> int_of_key k < int (DataLoader_len L) \<longrightarrow>
            ((\<exists>out. fst (DataLoader_getitem L k g) = Inr out) \<or>
             fst (DataLoader_getitem L k g) = Inl TorchError) \<and>
            (int64 (self_PAD_ID L) \<and>
             (\<forall>x\<in>set (self_data L ! nat (int_of_key k)). fits_int64 x) \<and>
             (self_eval L \<or> int64 (self_UNK_ID L)) \<longrightarrow>
               (\<exists>out. fst (DataLoader_getitem L k g) = Inr out)))"
proof -
  have ok: "((\<exists>out. fst (DataLoader_getitem L k g) = Inr out) \<or>
             fst (DataLoader_getitem L k g) = Inl TorchError) \<and>
            (int64 (self_PAD_ID L) \<and>
             (\<forall>x\<in>set (self_data L ! nat (int_of_key k)). fits_int64 x) \<and>
             (self_eval L \<or> int64 (self_UNK_ID L)) \<longrightarrow>
               (\<exists>out. fst (DataLoader_getitem L k g) = Inr out))"
    if k: "isinstance_int k" "0 \<le> int_of_key k" "int_of_key k < int (length (self_data L))"
  proof -
    define batch where "batch = self_data L ! nat (int_of_key k)"
    have "batch \<in> set (self_data L)" using k by (simp add: batch_def)
    then have ne: "batch \<noteq> []" using init_batches_nonempty [OF assms] by auto
    have lb: "length (map (\<lambda>x. length (ex_tokens x)) batch) = length batch" by simp
    obtain sb idx where s: "sort_all batch (map (\<lambda>x. length (ex_tokens x)) batch) = Inr (sb, idx)"
      using sort_all_Inr [OF ne lb] by blast
    note v = getitem_valid(2,3) [OF k batch_def [symmetric] ne s refl, of g]
    have "int64 (self_PAD_ID L) \<and> (\<forall>x\<in>set batch. fits_int64 x) \<and>
             (self_eval L \<or> int64 (self_UNK_ID L)) \<longrightarrow>
               (\<exists>out. fst (DataLoader_getitem L k g) = Inr out)"
      using v(2) by blast
    then show ?thesis using v(1) unfolding batch_def by blast
  qed
  have a: "\<not> isinstance_int k \<longrightarrow> fst (DataLoader_getitem L k g) = Inl TypeError"
    by (simp add: getitem_TypeError)
  have b: "isinstance_int k \<longrightarrow>
            (fst (DataLoader_getitem L k g) = Inl IndexError \<longleftrightarrow>
               int_of_key k < 0 \<or> int (DataLoader_len L) \<le> int_of_key k)"
  proof (intro impI iffI)
    assume "isinstance_int k" and "int_of_key k < 0 \<or> int (DataLoader_len L) \<le> int_of_key k"
    then show "fst (DataLoader_getitem L k g) = Inl IndexError"
      by (simp add: getitem_IndexError DataLoader_len_def)
  next
    assume i: "isinstance_int k" and e: "fst (DataLoader_getitem L k g) = Inl IndexError"
    show "int_of_key k < 0 \<or> int (DataLoader_len L) \<le> int_of_key k"
    proof (rule ccontr)
      assume "\<not> (int_of_key k < 0 \<or> int (DataLoader_len L) \<le> int_of_key k)"
      then have "0 \<le> int_of_key k" "int_of_key k < int (length (self_data L))"
        by (simp_all add: DataLoader_len_def)
      from ok [OF i this] show False using e by auto
    qed
  qed
  have c: "isinstance_int k \<and> 0 \<le> int_of_key k \<and> int_of_key k < int (DataLoader_len L) \<longrightarrow>
            ((\<exists>out. fst (DataLoader_getitem L k g) = Inr out) \<or>
             fst (DataLoader_getitem L k g) = Inl TorchError) \<and>
            (int64 (self_PAD_ID L) \<and>
             (\<forall>x\<in>set (self_data L ! nat (int_of_key k)). fits_int64 x) \<and>
             (self_eval L \<or> int64 (self_UNK_ID L)) \<longrightarrow>
               (\<exists>out. fst (DataLoader_getitem L k g) = Inr out))"
    using ok unfolding DataLoader_len_def by blast
  show ?thesis using conjI [OF a conjI [OF b c]] .
qed

theorem getitem_key_errors_witness:
  "DataLoader_init C0 [d0, d1, d2] 2 opt0 True [] st0 =
     (Inr L0,
      st0 @ [[''SUBJ-PERSON'', ''lives'', ''in'', ''OBJ-CITY''],
             [''SUBJ-PERSON'', ''SUBJ-PERSON'', ''lives'', ''in'', ''OBJ-CITY'', ''OBJ-CITY''],
             [''SUBJ-PERSON'', ''OBJ-CITY'']]) \<and>
   DataLoader_len L0 = 2 \<and>
   \<not> isinstance_int (StrKey ''0'') \<and>
   fst (DataLoader_getitem L0 (StrKey ''0'') g0) = Inl TypeError \<and>
   isinstance_int (IntKey (- 1)) \<and>
   fst (DataLoader_getitem L0 (IntKey (- 1)) g0) = Inl IndexError \<and>
   fst (DataLoader_getitem L0 (IntKey 2) g0) = Inl IndexError \<and>
   fst (DataLoader_getitem L0 (IntKey 0) g0) \<noteq> Inl IndexError \<and>
   int64 (self_PAD_ID L0) \<and> fits_int64 e0 \<and> fits_int64 e1 \<and> fits_int64 e2 \<and> self_eval L0 \<and>
   (\<exists>out. fst (DataLoader_getitem L0 (IntKey 0) g0) = Inr out) \<and>
   (\<exists>out. fst (DataLoader_getitem L0 (IntKey 1) g0) = Inr out) \<and>
   isinstance_int (BoolKey True) \<and>
   (\<exists>out. fst (DataLoader_getitem L0 (BoolKey True) g0) = Inr out)"
proof -
  note t = getitem_key_errors [OF init_example]
  have len: "DataLoader_len L0 = 2" by (simp add: DataLoader_len_def L0_def)
  have p: "int64 (self_PAD_ID L0)" "self_eval L0" by (simp_all add: L0_def int64_small)
  have f0: "\<forall>x\<in>set (self_data L0 ! nat (int_of_key (IntKey 0))). fits_int64 x"
    by (simp add: L0_def fits_examples)
  have f1: "\<forall>x\<in>set (self_data L0 ! nat (int_of_key (IntKey 1))). fits_int64 x"
    by (simp add: L0_def fits_examples)
  have f2: "\<forall>x\<in>set (self_data L0 ! nat (int_of_key (BoolKey True))). fits_int64 x"
    by (simp add: L0_def fits_examples)
  have a: "fst (DataLoader_getitem L0 (StrKey ''0'') g0) = Inl TypeError"
    using t [of "StrKey ''0''" g0] by simp
  have b: "fst (DataLoader_getitem L0 (IntKey (- 1)) g0) = Inl IndexError"
    using t [of "IntKey (- 1)" g0] by simp
  have c: "fst (DataLoader_getitem L0 (IntKey 2) g0) = Inl IndexError"
    using t [of "IntKey 2" g0] len by simp
  have d: "fst (DataLoader_getitem L0 (IntKey 0) g0) \<noteq> Inl IndexError"
    using t [of "IntKey 0" g0] len by simp
  have e: "\<exists>out. fst (DataLoader_getitem L0 (IntKey 0) g0) = Inr out"
    using t [of "IntKey 0" g0] len p f0 by simp
  have f: "\<exists>out. fst (DataLoader_getitem L0 (IntKey 1) g0) = Inr out"
    using t [of "IntKey 1" g0] len p f1 by simp
  have h: "\<exists>out. fst (DataLoader_getitem L0 (BoolKey True) g0) = Inr out"
    using t [of "BoolKey True" g0] len p f2 by simp
  show ?thesis using init_example len a b c d e f h p fits_examples by simp
qed

text \<open>
  The claim without the bound on the ids fails: with a vocabulary that gives a word the
  id \<open>2^63\<close>, \<open>__init__\<close> builds a loader of one batch, and on the valid key \<open>0\<close>
  \<open>__getitem__\<close> raises the overflow error of torch and returns no tuple.
\<close>

lemma preprocess_one_big:
  "preprocess_one C_big True d0 st0 =
     (Inr e0_big, st0 @ [[''SUBJ-PERSON'', ''lives'', ''in'', ''OBJ-CITY'']])"
  by code_simp

lemma init_big:
  "DataLoader_init C_big [d0] 1 opt0 True [] st0 =
     (Inr L_big, st0 @ [[''SUBJ-PERSON'', ''lives'', ''in'', ''OBJ-CITY'']])"
proof -
  have "range_from 0 (length [e0_big]) 1 = [0]"
    by (simp add: range_from_step range_from_stop)
  then have c: "chunk [e0_big] 1 = Inr [[e0_big]]"
    by (simp add: chunk_pos)
  have p: "preprocess C_big (opt_lower opt0) [d0] st0 =
     (Inr [e0_big], st0 @ [[''SUBJ-PERSON'', ''lives'', ''in'', ''OBJ-CITY'']])"
    by (simp add: opt0_lower preprocess_one_big)
  show ?thesis
    unfolding DataLoader_init_def p by (simp add: c L_big_def C_big_def C0_def)
qed

lemma getitem_big: "DataLoader_getitem L_big (IntKey 0) g0 = (Inl TorchError, g0)"
proof -
  have t: "ex_tokens e0_big = [2, 9223372036854775808, 5, 3]" by (simp add: e0_big_def)
  have n: "\<not> int64 9223372036854775808" by (simp add: int64_def)
  have "get_long_tensor 0 [[2, 9223372036854775808, 5, 3]] 1 = Inl TorchError"
    by (simp add: get_long_tensor_def LongTensor_def n int64_small)
  then show ?thesis
    by (simp add: DataLoader_getitem_def L_big_def Let_def sort_all_one t)
qed

theorem getitem_key_errors_counterexample:
  "DataLoader_init C_big [d0] 1 opt0 True [] st0 =
     (Inr L_big, st0 @ [[''SUBJ-PERSON'', ''lives'', ''in'', ''OBJ-CITY'']]) \<and>
   isinstance_int (IntKey 0) \<and> 0 \<le> int_of_key (IntKey 0) \<and>
   int_of_key (IntKey 0) < int (DataLoader_len L_big) \<and>
   fst (DataLoader_getitem L_big (IntKey 0) g0) = Inl TorchError"
  using init_big getitem_big by (simp add: DataLoader_len_def L_big_def)

text \<open>
  C2. A batch that \<open>__getitem__\<close> returns holds the eight fields of the examples in the
  order \<open>sort_all\<close> gives them, by descending length of the token sequence, and
  \<open>orig_idx\<close>, the original indices in that order, a permutation of \<open>0 .. n - 1\<close>.
  Sorting by ascending \<open>orig_idx\<close>, as \<open>predict\<close> does, puts the rows back in the order of
  the batch before sorting: the entry of sorted row \<open>i\<close> lands at position \<open>orig_idx[i]\<close>,
  whatever the lengths are, ties included.
\<close>

theorem getitem_sorted_unsort:
  assumes "DataLoader_getitem L k g = (Inr out, g')"
  shows "let batch = self_data L ! nat (int_of_key k);
             idx = out_orig_idx out;
             sb = map (\<lambda>i. batch ! i) idx;
             n = int (length batch);
             pad = self_PAD_ID L
         in sort_all batch (map (\<lambda>x. length (ex_tokens x)) batch) = Inr (sb, idx) \<and>
            mset idx = mset [0..<length batch] \<and>
            sorted_wrt (\<ge>) (map (\<lambda>x. length (ex_tokens x)) sb) \<and>
            (self_eval L \<longrightarrow> get_long_tensor pad (map ex_tokens sb) n = Inr (out_words out)) \<and>
            (\<not> self_eval L \<longrightarrow>
               get_long_tensor pad
                 (fst (word_dropout_all (self_UNK_ID L) (map ex_tokens sb)
                        (opt_word_dropout (self_opt L)) g)) n = Inr (out_words out)) \<and>
            get_long_tensor pad (map ex_pos sb) n = Inr (out_pos out) \<and>
            get_long_tensor pad (map ex_ner sb) n = Inr (out_ner out) \<and>
            get_long_tensor pad (map ex_deprel sb) n = Inr (out_deprel out) \<and>
            get_long_tensor pad (map ex_subj_positions sb) n = Inr (out_subj_positions out) \<and>
            get_long_tensor pad (map ex_obj_positions sb) n = Inr (out_obj_positions out) \<and>
            get_long_tensor pad (map ex_inst_position sb) n = Inr (out_src_pos out) \<and>
            out_rels out = map ex_relation sb \<and>
            predict_unsort idx sb sb = Inr (batch, batch) \<and>
            (length ps = length batch \<and> length qs = length batch \<longrightarrow>
               (\<exists>ps' qs'. predict_unsort idx ps qs = Inr (ps', qs') \<and>
                  length ps' = length batch \<and> length qs' = length batch \<and>
                  (\<forall>i<length batch. ps' ! (idx ! i) = ps ! i \<and> qs' ! (idx ! i) = qs ! i)))"
proof -
  define batch where "batch = self_data L ! nat (int_of_key k)"
  define idx where "idx = out_orig_idx out"
  define n where "n = int (length batch)"
  define pad where "pad = self_PAD_ID L"
  define lens where "lens = map (\<lambda>x. length (ex_tokens x)) batch"
  from getitem_Inr_facts [OF assms] obtain sb where
    s: "sort_all batch lens = Inr (sb, idx)"
    and w: "get_long_tensor pad
         (fst (if \<not> self_eval L
                  then word_dropout_all (self_UNK_ID L) (map ex_tokens sb)
                         (opt_word_dropout (self_opt L)) g
                  else (map ex_tokens sb, g))) n = Inr (out_words out)"
    and t: "get_long_tensor pad (map ex_pos sb) n = Inr (out_pos out)"
      "get_long_tensor pad (map ex_ner sb) n = Inr (out_ner out)"
      "get_long_tensor pad (map ex_deprel sb) n = Inr (out_deprel out)"
      "get_long_tensor pad (map ex_subj_positions sb) n = Inr (out_subj_positions out)"
      "get_long_tensor pad (map ex_obj_positions sb) n = Inr (out_obj_positions out)"
      "get_long_tensor pad (map ex_inst_position sb) n = Inr (out_src_pos out)"
    and rl: "out_rels out = map ex_relation sb"
    unfolding batch_def idx_def n_def pad_def lens_def by blast
  have ne: "batch \<noteq> []" using getitem_Inr_inv(4) [OF assms] by (simp add: batch_def)
  have lb: "length lens = length batch" by (simp add: lens_def)
  note p = sort_all_props [OF s lb]
  have sb: "sb = map (\<lambda>i. batch ! i) idx" by (rule p(2))
  have bnd: "i < length batch" if "i \<in> set idx" for i
    using that perm_upt_props(3) [OF p(1)] by simp
  have "map (\<lambda>x. length (ex_tokens x)) sb = map (\<lambda>i. lens ! i) idx"
    unfolding sb map_map comp_def using bnd by (intro map_cong refl) (simp add: lens_def)
  then have d: "sorted_wrt (\<ge>) (map (\<lambda>x. length (ex_tokens x)) sb)"
    using p(3) by simp
  have we: "self_eval L \<longrightarrow> get_long_tensor pad (map ex_tokens sb) n = Inr (out_words out)"
    using w by (cases "self_eval L") simp_all
  have wt: "\<not> self_eval L \<longrightarrow>
               get_long_tensor pad
                 (fst (word_dropout_all (self_UNK_ID L) (map ex_tokens sb)
                        (opt_word_dropout (self_opt L)) g)) n = Inr (out_words out)"
    using w by (cases "self_eval L") simp_all
  have u1: "predict_unsort idx sb sb = Inr (batch, batch)"
    using predict_unsort_recovers [OF p(1) ne, of "\<lambda>x. x" "\<lambda>x. x"] by (simp add: sb)
  have u2: "length ps = length batch \<and> length qs = length batch \<longrightarrow>
               (\<exists>ps' qs'. predict_unsort idx ps qs = Inr (ps', qs') \<and>
                  length ps' = length batch \<and> length qs' = length batch \<and>
                  (\<forall>i<length batch. ps' ! (idx ! i) = ps ! i \<and> qs' ! (idx ! i) = qs ! i))"
  proof
    assume l: "length ps = length batch \<and> length qs = length batch"
    have "0 < length batch" using ne by simp
    then show "\<exists>ps' qs'. predict_unsort idx ps qs = Inr (ps', qs') \<and>
                  length ps' = length batch \<and> length qs' = length batch \<and>
                  (\<forall>i<length batch. ps' ! (idx ! i) = ps ! i \<and> qs' ! (idx ! i) = qs ! i)"
      using predict_unsort_perm [OF p(1), of ps qs] l by blast
  qed
  have "sort_all batch lens = Inr (map (\<lambda>i. batch ! i) idx, idx) \<and>
            mset idx = mset [0..<length batch] \<and>
            sorted_wrt (\<ge>) (map (\<lambda>x. length (ex_tokens x)) sb) \<and>
            (self_eval L \<longrightarrow> get_long_tensor pad (map ex_tokens sb) n = Inr (out_words out)) \<and>
            (\<not> self_eval L \<longrightarrow>
               get_long_tensor pad
                 (fst (word_dropout_all (self_UNK_ID L) (map ex_tokens sb)
                        (opt_word_dropout (self_opt L)) g)) n = Inr (out_words out)) \<and>
            get_long_tensor pad (map ex_pos sb) n = Inr (out_pos out) \<and>
            get_long_tensor pad (map ex_ner sb) n = Inr (out_ner out) \<and>
            get_long_tensor pad (map ex_deprel sb) n = Inr (out_deprel out) \<and>
            get_long_tensor pad (map ex_subj_positions sb) n = Inr (out_subj_positions out) \<and>
            get_long_tensor pad (map ex_obj_positions sb) n = Inr (out_obj_positions out) \<and>
            get_long_tensor pad (map ex_inst_position sb) n = Inr (out_src_pos out) \<and>
            out_rels out = map ex_relation sb \<and>
            predict_unsort idx sb sb = Inr (batch, batch) \<and>
            (length ps = length batch \<and> length qs = length batch \<longrightarrow>
               (\<exists>ps' qs'. predict_unsort idx ps qs = Inr (ps', qs') \<and>
                  length ps' = length batch \<and> length qs' = length batch \<and>
                  (\<forall>i<length batch. ps' ! (idx ! i) = ps ! i \<and> qs' ! (idx ! i) = qs ! i)))"
    using s [unfolded sb] p(1) d we wt t rl u1 u2 by blast
  then show ?thesis
    unfolding Let_def sb batch_def idx_def n_def pad_def lens_def .
qed


theorem getitem_sorted_unsort_witness:
  "DataLoader_getitem L0 (IntKey 0) g0 = (Inr out0, g0) \<and>
   self_data L0 ! nat (int_of_key (IntKey 0)) = [e0, e1] \<and>
   out_orig_idx out0 = [1, 0] \<and>
   sort_all [e0, e1] (map (\<lambda>x. length (ex_tokens x)) [e0, e1]) = Inr ([e1, e0], [1, 0]) \<and>
   map (\<lambda>x. length (ex_tokens x)) [e1, e0] = [6, 4] \<and>
   out_rels out0 = map ex_relation [e1, e0] \<and>
   get_long_tensor 0 (map ex_tokens [e1, e0]) 2 = Inr (out_words out0) \<and>
   predict_unsort [1, 0] [e1, e0] [e1, e0] = Inr ([e0, e1], [e0, e1]) \<and>
   length [''b'', ''a''] = length [e0, e1] \<and> length [20, 10 :: int] = length [e0, e1] \<and>
   (\<exists>ps' qs'. predict_unsort [1, 0] [''b'', ''a''] [20, 10 :: int] = Inr (ps', qs') \<and>
      ps' ! 1 = ''b'' \<and> ps' ! 0 = ''a'' \<and> qs' ! 1 = 20 \<and> qs' ! 0 = 10)"
proof -
  have b: "self_data L0 ! nat (int_of_key (IntKey 0)) = [e0, e1]" by (simp add: L0_def)
  have i: "out_orig_idx out0 = [1, 0]" by (simp add: out0_def)
  have sbv: "map (\<lambda>i. [e0, e1] ! i) [1, 0] = [e1, e0]" by simp
  have ev: "self_eval L0" "self_PAD_ID L0 = 0" by (simp_all add: L0_def)
  note t = getitem_sorted_unsort [OF getitem_example, of "[''b'', ''a'']" "[20, 10 :: int]",
      unfolded Let_def b i sbv]
  have c1: "sort_all [e0, e1] (map (\<lambda>x. length (ex_tokens x)) [e0, e1]) = Inr ([e1, e0], [1, 0])"
    using t by (rule conjunct1)
  have c3: "sorted_wrt (\<ge>) (map (\<lambda>x. length (ex_tokens x)) [e1, e0])"
    using t by blast
  have c4: "get_long_tensor 0 (map ex_tokens [e1, e0]) 2 = Inr (out_words out0)"
    using t ev by simp
  have c5: "out_rels out0 = map ex_relation [e1, e0]"
    using t by blast
  have c6: "predict_unsort [1, 0] [e1, e0] [e1, e0] = Inr ([e0, e1], [e0, e1])"
    using t by blast
  have l: "length [''b'', ''a''] = length [e0, e1] \<and> length [20, 10 :: int] = length [e0, e1]"
    by simp
  have "\<exists>ps' qs'. predict_unsort [1, 0] [''b'', ''a''] [20, 10 :: int] = Inr (ps', qs') \<and>
      length ps' = length [e0, e1] \<and> length qs' = length [e0, e1] \<and>
      (\<forall>i<length [e0, e1]. ps' ! ([1, 0] ! i) = [''b'', ''a''] ! i \<and>
                            qs' ! ([1, 0] ! i) = [20, 10 :: int] ! i)"
    using t l by blast
  then obtain ps' qs' where
    u: "predict_unsort [1, 0] [''b'', ''a''] [20, 10 :: int] = Inr (ps', qs')"
    and n: "\<forall>i<length [e0, e1]. ps' ! ([1, 0] ! i) = [''b'', ''a''] ! i \<and>
                            qs' ! ([1, 0] ! i) = [20, 10 :: int] ! i"
    by blast
  have n0: "ps' ! 1 = ''b'' \<and> qs' ! 1 = 20" using n [rule_format, of 0] by simp
  have n1: "ps' ! 0 = ''a'' \<and> qs' ! 0 = 10" using n [rule_format, of 1] by simp
  have c7: "\<exists>ps' qs'. predict_unsort [1, 0] [''b'', ''a''] [20, 10 :: int] = Inr (ps', qs') \<and>
      ps' ! 1 = ''b'' \<and> ps' ! 0 = ''a'' \<and> qs' ! 1 = 20 \<and> qs' ! 0 = 10"
    using u n0 n1 by blast
  have c8: "map (\<lambda>x. length (ex_tokens x)) [e1, e0] = [6, 4]"
    by (simp add: e0_fields e1_fields)
  show ?thesis
    using getitem_example b i c1 c8 c5 c4 c6 l c7 by blast
qed

subsection \<open>Word dropout\<close>

lemma word_dropout_nth:
  assumes "i < length tokens"
  shows "(fst (word_dropout unk tokens dropout g) ! i = tokens ! i \<or>
          fst (word_dropout unk tokens dropout g) ! i = unk) \<and>
         (tokens ! i = unk \<longrightarrow> fst (word_dropout unk tokens dropout g) ! i = unk)"
  using list_all2_nthD2 [OF word_dropout_rel [of unk tokens dropout g] assms] .

lemma word_dropout_all_orig_or_unk:
  "list_all2 (list_all2 (\<lambda>y x. y = x \<or> y = unk))
     (fst (word_dropout_all unk sents dropout g)) sents"
  using word_dropout_all_rel [of unk sents dropout g]
  by (rule list_all2_mono) (erule list_all2_mono, simp)

text \<open>
  C6. \<open>word_dropout\<close> returns a sequence of the length of its input whose every element
  is the original id or \<open>UNK_ID\<close>; an element that is \<open>UNK_ID\<close> stays; with dropout rate
  \<open>0\<close> (and draws from the unit interval) the sequence comes back unchanged. In
  \<open>__getitem__\<close> the words tensor is the padded token column of the sorted batch as it is
  when the loader is in evaluation mode, with no draw taken, and the padded result of
  \<open>word_dropout\<close> on every sentence otherwise.
\<close>

theorem word_dropout_only_augmentation:
  "length (fst (word_dropout unk tokens dropout g)) = length tokens \<and>
   (\<forall>i<length tokens.
       fst (word_dropout unk tokens dropout g) ! i = tokens ! i \<or>
       fst (word_dropout unk tokens dropout g) ! i = unk) \<and>
   (\<forall>i<length tokens.
       tokens ! i = unk \<longrightarrow> fst (word_dropout unk tokens dropout g) ! i = unk) \<and>
   (valid_rng g \<longrightarrow> fst (word_dropout unk tokens 0 g) = tokens) \<and>
   (DataLoader_getitem L k g = (Inr out, g') \<longrightarrow>
      (let batch = self_data L ! nat (int_of_key k);
           sb = map (\<lambda>i. batch ! i) (out_orig_idx out);
           n = int (length batch);
           dropped = word_dropout_all (self_UNK_ID L) (map ex_tokens sb)
                       (opt_word_dropout (self_opt L)) g
       in (self_eval L \<longrightarrow>
             g' = g \<and>
             get_long_tensor (self_PAD_ID L) (map ex_tokens sb) n = Inr (out_words out)) \<and>
          (\<not> self_eval L \<longrightarrow>
             g' = snd dropped \<and>
             get_long_tensor (self_PAD_ID L) (fst dropped) n = Inr (out_words out) \<and>
             list_all2 (list_all2 (\<lambda>y x. y = x \<or> y = self_UNK_ID L))
               (fst dropped) (map ex_tokens sb))))"
proof -
  have a: "length (fst (word_dropout unk tokens dropout g)) = length tokens"
    by (rule length_word_dropout)
  have b: "\<forall>i<length tokens.
       fst (word_dropout unk tokens dropout g) ! i = tokens ! i \<or>
       fst (word_dropout unk tokens dropout g) ! i = unk"
    using word_dropout_nth [of _ tokens unk dropout g] by blast
  have c: "\<forall>i<length tokens.
       tokens ! i = unk \<longrightarrow> fst (word_dropout unk tokens dropout g) ! i = unk"
    using word_dropout_nth [of _ tokens unk dropout g] by blast
  have d: "valid_rng g \<longrightarrow> fst (word_dropout unk tokens 0 g) = tokens"
    using word_dropout_zero [of g 0 unk tokens] by simp
  have e: "DataLoader_getitem L k g = (Inr out, g') \<longrightarrow>
      (let batch = self_data L ! nat (int_of_key k);
           sb = map (\<lambda>i. batch ! i) (out_orig_idx out);
           n = int (length batch);
           dropped = word_dropout_all (self_UNK_ID L) (map ex_tokens sb)
                       (opt_word_dropout (self_opt L)) g
       in (self_eval L \<longrightarrow>
             g' = g \<and>
             get_long_tensor (self_PAD_ID L) (map ex_tokens sb) n = Inr (out_words out)) \<and>
          (\<not> self_eval L \<longrightarrow>
             g' = snd dropped \<and>
             get_long_tensor (self_PAD_ID L) (fst dropped) n = Inr (out_words out) \<and>
             list_all2 (list_all2 (\<lambda>y x. y = x \<or> y = self_UNK_ID L))
               (fst dropped) (map ex_tokens sb)))"
  proof
    assume gi: "DataLoader_getitem L k g = (Inr out, g')"
    define batch where "batch = self_data L ! nat (int_of_key k)"
    define n where "n = int (length batch)"
    from getitem_Inr_facts [OF gi] obtain sb where
      s: "sort_all batch (map (\<lambda>x. length (ex_tokens x)) batch) = Inr (sb, out_orig_idx out)"
      and g': "g' = snd (if \<not> self_eval L
                  then word_dropout_all (self_UNK_ID L) (map ex_tokens sb)
                         (opt_word_dropout (self_opt L)) g
                  else (map ex_tokens sb, g))"
      and w: "get_long_tensor (self_PAD_ID L)
         (fst (if \<not> self_eval L
                  then word_dropout_all (self_UNK_ID L) (map ex_tokens sb)
                         (opt_word_dropout (self_opt L)) g
                  else (map ex_tokens sb, g))) n = Inr (out_words out)"
      unfolding batch_def n_def by blast
    have lb: "length (map (\<lambda>x. length (ex_tokens x)) batch) = length batch" by simp
    have sb: "sb = map (\<lambda>i. batch ! i) (out_orig_idx out)"
      by (rule sort_all_props(2) [OF s lb])
    define dropped where "dropped = word_dropout_all (self_UNK_ID L) (map ex_tokens sb)
                       (opt_word_dropout (self_opt L)) g"
    have ev: "self_eval L \<longrightarrow>
             g' = g \<and>
             get_long_tensor (self_PAD_ID L) (map ex_tokens sb) n = Inr (out_words out)"
      using g' w by (cases "self_eval L") simp_all
    have tr: "\<not> self_eval L \<longrightarrow>
             g' = snd dropped \<and>
             get_long_tensor (self_PAD_ID L) (fst dropped) n = Inr (out_words out) \<and>
             list_all2 (list_all2 (\<lambda>y x. y = x \<or> y = self_UNK_ID L))
               (fst dropped) (map ex_tokens sb)"
      using g' w word_dropout_all_orig_or_unk [of "self_UNK_ID L" "map ex_tokens sb"
          "opt_word_dropout (self_opt L)" g]
      by (cases "self_eval L") (simp_all add: dropped_def)
    show "let batch = self_data L ! nat (int_of_key k);
           sb = map (\<lambda>i. batch ! i) (out_orig_idx out);
           n = int (length batch);
           dropped = word_dropout_all (self_UNK_ID L) (map ex_tokens sb)
                       (opt_word_dropout (self_opt L)) g
       in (self_eval L \<longrightarrow>
             g' = g \<and>
             get_long_tensor (self_PAD_ID L) (map ex_tokens sb) n = Inr (out_words out)) \<and>
          (\<not> self_eval L \<longrightarrow>
             g' = snd dropped \<and>
             get_long_tensor (self_PAD_ID L) (fst dropped) n = Inr (out_words out) \<and>
             list_all2 (list_all2 (\<lambda>y x. y = x \<or> y = self_UNK_ID L))
               (fst dropped) (map ex_tokens sb))"
      using conjI [OF ev tr]
      unfolding Let_def dropped_def sb batch_def n_def .
  qed
  show ?thesis using conjI [OF a conjI [OF b conjI [OF c conjI [OF d e]]]] .
qed


lemma valid_rng_g0: "valid_rng g0"
  by (simp add: valid_rng_def g0_def)

lemma word_dropout_example:
  "fst (word_dropout 1 [2, 4, 1, 3] (3 / 4) g0) = [1, 1, 1, 1]"
  by (simp add: g0_def Let_def case_prod_beta)

lemma getitem_training_example:
  "DataLoader_getitem (L0\<lparr>self_eval := False\<rparr>) (IntKey 0) g0 = (Inr out0, g0)"
  by (simp add: DataLoader_getitem_def L0_def Let_def e0_fields e1_fields sort_all_two
      get_long_tensor_two LongTensor_ok int64_small out0_def opt0_def g0_def case_prod_beta)

theorem word_dropout_only_augmentation_witness:
  "valid_rng g0 \<and>
   fst (word_dropout 1 [2, 4, 1, 3] (3 / 4) g0) = [1, 1, 1, 1] \<and>
   length (fst (word_dropout 1 [2, 4, 1, 3] (3 / 4) g0)) = length [2, 4, 1, 3 :: int] \<and>
   fst (word_dropout 1 [2, 4, 1, 3] (3 / 4) g0) ! 2 = 1 \<and>
   fst (word_dropout 1 [2, 4, 1, 3] 0 g0) = [2, 4, 1, 3] \<and>
   DataLoader_getitem L0 (IntKey 0) g0 = (Inr out0, g0) \<and>
   self_eval L0 \<and>
   get_long_tensor (self_PAD_ID L0) (map ex_tokens [e1, e0]) 2 = Inr (out_words out0) \<and>
   DataLoader_getitem (L0\<lparr>self_eval := False\<rparr>) (IntKey 0) g0 = (Inr out0, g0) \<and>
   list_all2 (list_all2 (\<lambda>y x. y = x \<or> y = 1))
     (fst (word_dropout_all 1 (map ex_tokens [e1, e0]) (1 / 25) g0)) (map ex_tokens [e1, e0]) \<and>
   get_long_tensor 0 (fst (word_dropout_all 1 (map ex_tokens [e1, e0]) (1 / 25) g0)) 2
     = Inr (out_words out0)"
proof -
  note t = word_dropout_only_augmentation [of 1 "[2, 4, 1, 3]" _ g0]
  have a: "length (fst (word_dropout 1 [2, 4, 1, 3] (3 / 4) g0)) = length [2, 4, 1, 3 :: int]"
    using t [of "3 / 4" L0 NoneKey out0 g0] by (rule conjunct1)
  have c: "\<forall>i<length [2, 4, 1, 3 :: int].
       [2, 4, 1, 3] ! i = (1 :: int) \<longrightarrow> fst (word_dropout 1 [2, 4, 1, 3] (3 / 4) g0) ! i = 1"
    using t [of "3 / 4" L0 NoneKey out0 g0] by blast
  have c2: "fst (word_dropout 1 [2, 4, 1, 3] (3 / 4) g0) ! 2 = 1"
    using c [rule_format, of 2] by simp
  have "valid_rng g0 \<longrightarrow> fst (word_dropout 1 [2, 4, 1, 3] 0 g0) = [2, 4, 1, 3]"
    using t [of "3 / 4" L0 NoneKey out0 g0] by blast
  then have d: "fst (word_dropout 1 [2, 4, 1, 3] 0 g0) = [2, 4, 1, 3]"
    using valid_rng_g0 by blast
  have b: "self_data L0 ! nat (int_of_key (IntKey 0)) = [e0, e1]"
    "out_orig_idx out0 = [1, 0]" "self_eval L0" "self_PAD_ID L0 = 0" "self_UNK_ID L0 = 1"
    "opt_word_dropout (self_opt L0) = 1 / 25"
    by (simp_all add: L0_def out0_def opt0_def)
  have sbv: "map (\<lambda>i. [e0, e1] ! i) [1, 0] = [e1, e0]" by simp
  have "DataLoader_getitem L0 (IntKey 0) g0 = (Inr out0, g0) \<longrightarrow>
      (let batch = self_data L0 ! nat (int_of_key (IntKey 0));
           sb = map (\<lambda>i. batch ! i) (out_orig_idx out0);
           n = int (length batch);
           dropped = word_dropout_all (self_UNK_ID L0) (map ex_tokens sb)
                       (opt_word_dropout (self_opt L0)) g0
       in (self_eval L0 \<longrightarrow>
             g0 = g0 \<and>
             get_long_tensor (self_PAD_ID L0) (map ex_tokens sb) n = Inr (out_words out0)) \<and>
          (\<not> self_eval L0 \<longrightarrow>
             g0 = snd dropped \<and>
             get_long_tensor (self_PAD_ID L0) (fst dropped) n = Inr (out_words out0) \<and>
             list_all2 (list_all2 (\<lambda>y x. y = x \<or> y = self_UNK_ID L0))
               (fst dropped) (map ex_tokens sb)))"
    using t [of "3 / 4" L0 "IntKey 0" out0 g0] by blast
  then have e: "get_long_tensor (self_PAD_ID L0) (map ex_tokens [e1, e0]) 2 = Inr (out_words out0)"
    using getitem_example unfolding Let_def b(1,2) sbv using b(3) by simp
  have "DataLoader_getitem (L0\<lparr>self_eval := False\<rparr>) (IntKey 0) g0 = (Inr out0, g0) \<longrightarrow>
      (let batch = self_data (L0\<lparr>self_eval := False\<rparr>) ! nat (int_of_key (IntKey 0));
           sb = map (\<lambda>i. batch ! i) (out_orig_idx out0);
           n = int (length batch);
           dropped = word_dropout_all (self_UNK_ID (L0\<lparr>self_eval := False\<rparr>)) (map ex_tokens sb)
                       (opt_word_dropout (self_opt (L0\<lparr>self_eval := False\<rparr>))) g0
       in (self_eval (L0\<lparr>self_eval := False\<rparr>) \<longrightarrow>
             g0 = g0 \<and>
             get_long_tensor (self_PAD_ID (L0\<lparr>self_eval := False\<rparr>)) (map ex_tokens sb) n
               = Inr (out_words out0)) \<and>
          (\<not> self_eval (L0\<lparr>self_eval := False\<rparr>) \<longrightarrow>
             g0 = snd dropped \<and>
             get_long_tensor (self_PAD_ID (L0\<lparr>self_eval := False\<rparr>)) (fst dropped) n
               = Inr (out_words out0) \<and>
             list_all2 (list_all2 (\<lambda>y x. y = x \<or> y = self_UNK_ID (L0\<lparr>self_eval := False\<rparr>)))
               (fst dropped) (map ex_tokens sb)))"
    using t [of "3 / 4" "L0\<lparr>self_eval := False\<rparr>" "IntKey 0" out0 g0] by blast
  then have f: "list_all2 (list_all2 (\<lambda>y x. y = x \<or> y = 1))
     (fst (word_dropout_all 1 (map ex_tokens [e1, e0]) (1 / 25) g0)) (map ex_tokens [e1, e0]) \<and>
   get_long_tensor 0 (fst (word_dropout_all 1 (map ex_tokens [e1, e0]) (1 / 25) g0)) 2
     = Inr (out_words out0)"
    using getitem_training_example b sbv by (simp add: Let_def)
  show ?thesis
    using valid_rng_g0 word_dropout_example a c2 d getitem_example b(3) e
      getitem_training_example f
    by blast
qed

subsection \<open>Span anonymization\<close>

lemma slice_assign_span:
  assumes "0 \<le> a" and "a \<le> b" and "b < int (length xs)"
  shows "slice_assign xs a (b + 1) (py_repeat v (b - a + 1)) =
           take (nat a) xs @ replicate (nat (b - a + 1)) v @ drop (nat b + 1) xs"
proof -
  have lo: "slice_index a (length xs) = nat a"
    using assms by (simp add: slice_index_def)
  have hi: "slice_index (b + 1) (length xs) = nat b + 1"
    using assms by (simp add: slice_index_def)
  have "max (nat a) (nat b + 1) = nat b + 1" using assms by linarith
  then show ?thesis
    by (simp add: slice_assign_def Let_def lo hi py_repeat_def)
qed

lemma slice_assign_span_nth:
  assumes "0 \<le> a" and "a \<le> b" and "b < int (length xs)"
  shows "length (slice_assign xs a (b + 1) (py_repeat v (b - a + 1))) = length xs"
    and "i < length xs \<Longrightarrow>
         slice_assign xs a (b + 1) (py_repeat v (b - a + 1)) ! i =
           (if a \<le> int i \<and> int i \<le> b then v else xs ! i)"
proof -
  note e = slice_assign_span [OF assms, of v]
  show "length (slice_assign xs a (b + 1) (py_repeat v (b - a + 1))) = length xs"
    unfolding e using assms by simp
  assume i: "i < length xs"
  consider (before) "int i < a" | (inside) "a \<le> int i" "int i \<le> b" | (after) "b < int i"
    by linarith
  then show "slice_assign xs a (b + 1) (py_repeat v (b - a + 1)) ! i =
           (if a \<le> int i \<and> int i \<le> b then v else xs ! i)"
  proof cases
    case before
    then have "i < nat a" using assms by linarith
    then show ?thesis unfolding e using before i by (simp add: nth_append)
  next
    case inside
    then have "\<not> i < nat a" "i - nat a < nat (b - a + 1)" using assms by linarith+
    then show ?thesis unfolding e using inside i assms by (simp add: nth_append)
  next
    case after
    then have n: "\<not> i < nat a" "\<not> i - nat a < nat (b - a + 1)" using assms by linarith+
    have k: "nat b + 1 + (i - nat a - nat (b - a + 1)) = i"
      "Suc (nat b + i - (nat a + nat (b - a + 1))) = i" using after assms by linarith+
    have "\<not> (a \<le> int i \<and> int i \<le> b)" using after by simp
    then show ?thesis unfolding e using n i assms by (simp add: nth_append k)
  qed
qed

lemma anonymized_nth:
  assumes "0 \<le> subj_start d" "subj_start d \<le> subj_end d" "subj_end d < int (length tokens)"
    and "0 \<le> obj_start d" "obj_start d \<le> obj_end d" "obj_end d < int (length tokens)"
  shows "length (anonymized d tokens) = length tokens"
    and "i < length tokens \<Longrightarrow>
         anonymized d tokens ! i =
           (if obj_start d \<le> int i \<and> int i \<le> obj_end d then ''OBJ-'' @ obj_type d
            else if subj_start d \<le> int i \<and> int i \<le> subj_end d then ''SUBJ-'' @ subj_type d
            else tokens ! i)"
proof -
  define mid where "mid = slice_assign tokens (subj_start d) (subj_end d + 1)
          (py_repeat (''SUBJ-'' @ subj_type d) (subj_end d - subj_start d + 1))"
  have lm: "length mid = length tokens"
    unfolding mid_def using assms(1-3) by (rule slice_assign_span_nth(1))
  have o: "obj_end d < int (length mid)" using assms(6) lm by simp
  have a: "anonymized d tokens = slice_assign mid (obj_start d) (obj_end d + 1)
       (py_repeat (''OBJ-'' @ obj_type d) (obj_end d - obj_start d + 1))"
    by (simp add: anonymized_def mid_def)
  show "length (anonymized d tokens) = length tokens"
    unfolding a using slice_assign_span_nth(1) [OF assms(4,5) o] lm by simp
  assume i: "i < length tokens"
  then have i': "i < length mid" using lm by simp
  have m: "mid ! i = (if subj_start d \<le> int i \<and> int i \<le> subj_end d
                       then ''SUBJ-'' @ subj_type d else tokens ! i)"
    unfolding mid_def using assms(1-3) i by (rule slice_assign_span_nth(2))
  show "anonymized d tokens ! i =
           (if obj_start d \<le> int i \<and> int i \<le> obj_end d then ''OBJ-'' @ obj_type d
            else if subj_start d \<le> int i \<and> int i \<le> subj_end d then ''SUBJ-'' @ subj_type d
            else tokens ! i)"
    unfolding a slice_assign_span_nth(2) [OF assms(4,5) o i'] m by simp
qed

lemma anonymize_tokens_in_place:
  "anonymize_tokens C False d st = (token d, st[token d := anonymized d (st ! token d)])"
proof (cases "token d < length st")
  case True
  then show ?thesis by (simp add: anonymize_tokens_def Let_def anonymized_def)
next
  case False
  then have "length st \<le> token d" by simp
  then show ?thesis by (simp add: anonymize_tokens_def Let_def list_update_beyond)
qed

lemma anonymize_tokens_fresh:
  "anonymize_tokens C True d st =
     (length st, st @ [anonymized d (map (str_lower C) (st ! token d))])"
  by (simp add: anonymize_tokens_def Let_def anonymized_def)

lemma preprocess_one_store:
  "snd (preprocess_one C lower d st) = snd (anonymize_tokens C lower d st)"
  by (simp add: preprocess_one_def Let_def case_prod_beta split: option.split)

lemma preprocess_one_tokens:
  assumes "fst (preprocess_one C lower d st) = Inr ex"
  shows "ex_tokens ex =
     map_to_ids (UNK_ID C)
       (snd (anonymize_tokens C lower d st) ! fst (anonymize_tokens C lower d st)) (word2id C)"
  using assms
  by (simp add: preprocess_one_def Let_def case_prod_beta split: option.splits) auto


subsection \<open>The loop of preprocess\<close>

lemma preprocess_one_store_False:
  "snd (preprocess_one C False d st) = st[token d := anonymized d (st ! token d)]"
  by (simp add: preprocess_one_store anonymize_tokens_in_place)

lemma preprocess_one_store_True:
  "snd (preprocess_one C True d st) = st @ [anonymized d (map (str_lower C) (st ! token d))]"
  by (simp add: preprocess_one_store anonymize_tokens_fresh)

lemma preprocess_one_tokens_False:
  assumes "fst (preprocess_one C False d st) = Inr ex" and "token d < length st"
  shows "ex_tokens ex = map_to_ids (UNK_ID C) (anonymized d (st ! token d)) (word2id C)"
  using preprocess_one_tokens [OF assms(1)] assms(2)
  by (simp add: anonymize_tokens_in_place)

lemma preprocess_one_tokens_True:
  assumes "fst (preprocess_one C True d st) = Inr ex"
  shows "ex_tokens ex =
     map_to_ids (UNK_ID C) (anonymized d (map (str_lower C) (st ! token d))) (word2id C)"
  using preprocess_one_tokens [OF assms(1)]
  by (simp add: anonymize_tokens_fresh)

lemma preprocess_Cons_fst:
  "fst (preprocess C lower (d # ds) st) = Inr processed \<longleftrightarrow>
     (\<exists>ex rest. fst (preprocess_one C lower d st) = Inr ex \<and>
        fst (preprocess C lower ds (snd (preprocess_one C lower d st))) = Inr rest \<and>
        processed = ex # rest)"
  by (auto split: prod.splits sum.splits)

lemma preprocess_Cons_snd:
  "snd (preprocess C lower (d # ds) st) =
     (case fst (preprocess_one C lower d st) of
        Inl e \<Rightarrow> snd (preprocess_one C lower d st)
      | Inr ex \<Rightarrow> snd (preprocess C lower ds (snd (preprocess_one C lower d st))))"
  by (auto split: prod.splits sum.splits)

lemma preprocess_length:
  "fst (preprocess C lower data st) = Inr processed \<Longrightarrow> length processed = length data"
proof (induction data arbitrary: st processed)
  case Nil
  then show ?case by simp
next
  case (Cons d ds)
  then show ?case by (auto simp del: preprocess.simps simp add: preprocess_Cons_fst)
qed

lemma preprocess_store_True: "\<exists>new. snd (preprocess C True data st) = st @ new"
proof (induction data arbitrary: st)
  case Nil
  then show ?case by simp
next
  case (Cons d ds)
  show ?case
  proof (cases "fst (preprocess_one C True d st)")
    case (Inl e)
    then show ?thesis
      by (simp del: preprocess.simps add: preprocess_Cons_snd preprocess_one_store_True)
  next
    case (Inr ex)
    obtain new where "snd (preprocess C True ds (snd (preprocess_one C True d st)))
        = snd (preprocess_one C True d st) @ new"
      using Cons.IH by blast
    then show ?thesis using Inr
      by (simp del: preprocess.simps add: preprocess_Cons_snd preprocess_one_store_True)
  qed
qed

lemma preprocess_store_False:
  "fst (preprocess C False data st) = Inr processed \<Longrightarrow>
     snd (preprocess C False data st) =
       foldl (\<lambda>s d. s[token d := anonymized d (s ! token d)]) st data"
proof (induction data arbitrary: st processed)
  case Nil
  then show ?case by simp
next
  case (Cons d ds)
  from Cons.prems obtain ex rest where
    e: "fst (preprocess_one C False d st) = Inr ex"
    and r: "fst (preprocess C False ds (snd (preprocess_one C False d st))) = Inr rest"
    unfolding preprocess_Cons_fst by blast
  show ?case
    using Cons.IH [OF r] e
    by (simp del: preprocess.simps add: preprocess_Cons_snd preprocess_one_store_False)
qed

lemma foldl_update_length:
  "length (foldl (\<lambda>s d. s[token d := f d (s ! token d)]) st ds) = length st"
  by (induction ds arbitrary: st) simp_all

lemma foldl_update_other:
  "a \<notin> token ` set ds \<Longrightarrow>
     foldl (\<lambda>s d. s[token d := f d (s ! token d)]) st ds ! a = st ! a"
  by (induction ds arbitrary: st) simp_all

lemma foldl_update_distinct:
  "distinct (map token ds) \<Longrightarrow> d \<in> set ds \<Longrightarrow> token d < length st \<Longrightarrow>
     foldl (\<lambda>s d. s[token d := f d (s ! token d)]) st ds ! token d = f d (st ! token d)"
proof (induction ds arbitrary: st)
  case Nil
  then show ?case by simp
next
  case (Cons x xs)
  show ?case
  proof (cases "d = x")
    case True
    have "token x \<notin> token ` set xs" using Cons.prems(1) by simp
    then show ?thesis using True Cons.prems(3)
      by (simp add: foldl_update_other)
  next
    case False
    then have d: "d \<in> set xs" using Cons.prems(2) by simp
    then have "token d \<in> token ` set xs" by (rule imageI)
    then have n: "token d \<noteq> token x" using Cons.prems(1) by auto
    have "foldl (\<lambda>s d. s[token d := f d (s ! token d)]) (st[token x := f x (st ! token x)]) xs
        ! token d = f d (st[token x := f x (st ! token x)] ! token d)"
      using Cons.prems by (intro Cons.IH d) simp_all
    then show ?thesis using n by simp
  qed
qed

lemma preprocess_tokens_nth:
  assumes "fst (preprocess C lower data st) = Inr processed"
    and "k < length data"
    and "lower \<or> distinct (map token data)"
    and "\<forall>d\<in>set data. token d < length st"
  shows "ex_tokens (processed ! k) =
     map_to_ids (UNK_ID C)
       (anonymized (data ! k)
          (if lower then map (str_lower C) (st ! token (data ! k)) else st ! token (data ! k)))
       (word2id C)"
  using assms
proof (induction data arbitrary: st processed k)
  case Nil
  then show ?case by simp
next
  case (Cons d ds)
  from Cons.prems(1) obtain ex rest where
    e: "fst (preprocess_one C lower d st) = Inr ex"
    and r: "fst (preprocess C lower ds (snd (preprocess_one C lower d st))) = Inr rest"
    and p: "processed = ex # rest"
    unfolding preprocess_Cons_fst by blast
  have td: "token d < length st" using Cons.prems(4) by simp
  show ?case
  proof (cases k)
    case 0
    show ?thesis
    proof (cases lower)
      case True
      then show ?thesis using e 0 p preprocess_one_tokens_True [of C d st ex] by simp
    next
      case False
      then show ?thesis using e 0 p td preprocess_one_tokens_False [of C d st ex] by simp
    qed
  next
    case (Suc j)
    define st1 where "st1 = snd (preprocess_one C lower d st)"
    have j: "j < length ds" using Cons.prems(2) Suc by simp
    have tj: "token (ds ! j) < length st" using Cons.prems(4) j by simp
    have l1: "\<forall>d\<in>set ds. token d < length st1"
    proof (cases lower)
      case True
      then show ?thesis using Cons.prems(4) by (auto simp: st1_def preprocess_one_store_True)
    next
      case False
      then show ?thesis using Cons.prems(4) by (simp add: st1_def preprocess_one_store_False)
    qed
    have same: "st1 ! token (ds ! j) = st ! token (ds ! j)"
    proof (cases lower)
      case True
      then show ?thesis using tj by (simp add: st1_def preprocess_one_store_True nth_append)
    next
      case False
      then have "distinct (map token (d # ds))" using Cons.prems(3) by simp
      moreover have "token (ds ! j) \<in> token ` set ds" using j by simp
      ultimately have "token (ds ! j) \<noteq> token d" by auto
      then show ?thesis using False by (simp add: st1_def preprocess_one_store_False)
    qed
    have d3: "lower \<or> distinct (map token ds)" using Cons.prems(3) by auto
    have "ex_tokens (rest ! j) =
       map_to_ids (UNK_ID C)
         (anonymized (ds ! j)
            (if lower then map (str_lower C) (st1 ! token (ds ! j)) else st1 ! token (ds ! j)))
         (word2id C)"
      using r j d3 l1 unfolding st1_def [symmetric] by (rule Cons.IH)
    then show ?thesis using Suc p by (simp add: same)
  qed
qed


subsection \<open>Small inputs for the anonymization\<close>

lemma preprocess_one_overlap:
  "preprocess_one C0 False d_overlap st_overlap =
     (Inr e_overlap, [[''SUBJ-PERSON'', ''OBJ-CITY'', ''OBJ-CITY'']])"
  by code_simp

lemma preprocess_overlap:
  "preprocess C0 False [d_overlap] st_overlap =
     (Inr [e_overlap], [[''SUBJ-PERSON'', ''OBJ-CITY'', ''OBJ-CITY'']])"
  by (simp add: preprocess_one_overlap)

lemma preprocess_one_d0_in_place:
  "preprocess_one C0 False d0 st0 =
     (Inr (e0\<lparr>ex_tokens := [2, 1, 5, 3]\<rparr>),
      [[''SUBJ-PERSON'', ''Lives'', ''in'', ''OBJ-CITY''],
       [''Bob'', ''Smith'', ''lives'', ''in'', ''New'', ''York''],
       [''She'', ''lives'']])"
  by code_simp

lemma preprocess_one_d2_in_place:
  "preprocess_one C0 False d2
      [[''SUBJ-PERSON'', ''Lives'', ''in'', ''OBJ-CITY''],
       [''Bob'', ''Smith'', ''lives'', ''in'', ''New'', ''York''],
       [''She'', ''lives'']] =
     (Inr e2,
      [[''SUBJ-PERSON'', ''Lives'', ''in'', ''OBJ-CITY''],
       [''Bob'', ''Smith'', ''lives'', ''in'', ''New'', ''York''],
       [''SUBJ-PERSON'', ''OBJ-CITY'']])"
  by code_simp

lemma preprocess_in_place_example:
  "preprocess C0 False [d0, d2] st0 =
     (Inr [e0\<lparr>ex_tokens := [2, 1, 5, 3]\<rparr>, e2],
      [[''SUBJ-PERSON'', ''Lives'', ''in'', ''OBJ-CITY''],
       [''Bob'', ''Smith'', ''lives'', ''in'', ''New'', ''York''],
       [''SUBJ-PERSON'', ''OBJ-CITY'']])"
  by (simp add: preprocess_one_d0_in_place preprocess_one_d2_in_place)

lemma lower_d1: "map (str_lower C0) (st0 ! token d1) =
    [''bob'', ''smith'', ''lives'', ''in'', ''new'', ''york'']"
  by code_simp

subsection \<open>Span anonymization in preprocess\<close>

text \<open>
  C4, as amended. Let \<open>preprocess\<close> return the examples \<open>processed\<close> for the
  records \<open>data\<close>, every record with its token list in the store and, when the tokens are
  not lowercased, no two records sharing one list. Let \<open>d\<close> be record \<open>k\<close> and \<open>base\<close> its
  token list (lowercased when \<open>lower\<close> is set), with both spans inside it:
  \<open>0 \<le> start \<le> end < length base\<close>. Then the token ids of example \<open>k\<close> are the ids of
  a sequence \<open>toks\<close> of the length of \<open>base\<close> in which every index of the object span holds
  \<open>'OBJ-' + obj_type\<close>, every index of the subject span outside the object span holds
  \<open>'SUBJ-' + subj_type\<close>, and every other index holds the token of \<open>base\<close>.
\<close>

theorem preprocess_anonymizes:
  assumes "fst (preprocess C lower data st) = Inr processed"
    and "k < length data"
    and "lower \<or> distinct (map token data)"
    and "\<forall>r\<in>set data. token r < length st"
    and "d = data ! k"
    and "base = (if lower then map (str_lower C) (st ! token d) else st ! token d)"
    and "0 \<le> subj_start d" and "subj_start d \<le> subj_end d"
    and "subj_end d < int (length base)"
    and "0 \<le> obj_start d" and "obj_start d \<le> obj_end d"
    and "obj_end d < int (length base)"
  shows "\<exists>toks. ex_tokens (processed ! k) = map_to_ids (UNK_ID C) toks (word2id C) \<and>
           length toks = length base \<and>
           (\<forall>i<length base. toks ! i =
              (if obj_start d \<le> int i \<and> int i \<le> obj_end d then ''OBJ-'' @ obj_type d
               else if subj_start d \<le> int i \<and> int i \<le> subj_end d
                    then ''SUBJ-'' @ subj_type d
               else base ! i))"
proof -
  have t: "ex_tokens (processed ! k) =
      map_to_ids (UNK_ID C) (anonymized d base) (word2id C)"
    using preprocess_tokens_nth [OF assms(1-4)] unfolding assms(5,6) by simp
  note a = anonymized_nth [OF assms(7-12)]
  show ?thesis
    using t a by blast
qed

theorem preprocess_anonymizes_witness:
  "\<exists>toks. ex_tokens ([e0, e1, e2] ! 1) = map_to_ids (UNK_ID C0) toks (word2id C0) \<and>
      toks = [''SUBJ-PERSON'', ''SUBJ-PERSON'', ''lives'', ''in'', ''OBJ-CITY'', ''OBJ-CITY'']"
proof -
  define base where "base = [''bob'', ''smith'', ''lives'', ''in'', ''new'', ''york'']"
  have h1: "fst (preprocess C0 True [d0, d1, d2] st0) = Inr [e0, e1, e2]"
    by (simp only: preprocess_example fst_conv)
  have h2: "1 < length [d0, d1, d2]" by simp
  have h3: "True \<or> distinct (map token [d0, d1, d2])" by simp
  have h4: "\<forall>r\<in>set [d0, d1, d2]. token r < length st0"
    by (simp add: d0_def d1_def d2_def st0_def)
  have h5: "d1 = [d0, d1, d2] ! 1" by simp
  have h6: "base = (if True then map (str_lower C0) (st0 ! token d1) else st0 ! token d1)"
    by (simp only: lower_d1 base_def if_True)
  have s: "0 \<le> subj_start d1" "subj_start d1 \<le> subj_end d1" "subj_end d1 < int (length base)"
    "0 \<le> obj_start d1" "obj_start d1 \<le> obj_end d1" "obj_end d1 < int (length base)"
    by (simp_all add: d1_def base_def)
  obtain toks where
    t: "ex_tokens ([e0, e1, e2] ! 1) = map_to_ids (UNK_ID C0) toks (word2id C0)"
    and l: "length toks = length base"
    and n: "\<forall>i<length base. toks ! i =
              (if obj_start d1 \<le> int i \<and> int i \<le> obj_end d1 then ''OBJ-'' @ obj_type d1
               else if subj_start d1 \<le> int i \<and> int i \<le> subj_end d1
                    then ''SUBJ-'' @ subj_type d1
               else base ! i)"
    using preprocess_anonymizes [OF h1 h2 h3 h4 h5 h6 s] by blast
  have l6: "length toks = 6" using l by (simp add: base_def)
  have e: "toks ! 0 = ''SUBJ-PERSON''" "toks ! 1 = ''SUBJ-PERSON''" "toks ! 2 = ''lives''"
    "toks ! 3 = ''in''" "toks ! 4 = ''OBJ-CITY''" "toks ! 5 = ''OBJ-CITY''"
    using n [rule_format, of 0] n [rule_format, of 1] n [rule_format, of 2]
      n [rule_format, of 3] n [rule_format, of 4] n [rule_format, of 5]
    by (simp_all add: base_def d1_def)
  have "toks = [''SUBJ-PERSON'', ''SUBJ-PERSON'', ''lives'', ''in'', ''OBJ-CITY'', ''OBJ-CITY'']"
  proof (rule nth_equalityI)
    show "length toks =
        length [''SUBJ-PERSON'', ''SUBJ-PERSON'', ''lives'', ''in'', ''OBJ-CITY'', ''OBJ-CITY'']"
      using l6 by simp
  next
    fix i
    assume "i < length toks"
    then have "i = 0 \<or> i = 1 \<or> i = 2 \<or> i = 3 \<or> i = 4 \<or> i = 5" using l6 by linarith
    then show "toks ! i =
        [''SUBJ-PERSON'', ''SUBJ-PERSON'', ''lives'', ''in'', ''OBJ-CITY'', ''OBJ-CITY''] ! i"
      using e by (elim disjE) simp_all
  qed
  then show ?thesis using t by blast
qed

text \<open>
  The claim without the condition on the spans fails for a record whose spans overlap.
  The record \<open>d_overlap\<close> has the
  tokens \<open>New York City\<close>, the subject span \<open>[0, 1]\<close> and the object span \<open>[1, 2]\<close>. The
  second slice assignment overwrites what the first wrote at index 1, which lies in the
  subject span: the token there is \<open>OBJ-CITY\<close> (id 3), not \<open>SUBJ-PERSON\<close> (id 2).
\<close>

theorem preprocess_anonymizes_counterexample:
  "preprocess C0 False [d_overlap] st_overlap =
     (Inr [e_overlap], [[''SUBJ-PERSON'', ''OBJ-CITY'', ''OBJ-CITY'']]) \<and>
   subj_start d_overlap \<le> 1 \<and> 1 \<le> subj_end d_overlap \<and>
   snd (preprocess C0 False [d_overlap] st_overlap) ! token d_overlap ! 1 = ''OBJ-CITY'' \<and>
   snd (preprocess C0 False [d_overlap] st_overlap) ! token d_overlap ! 1
     \<noteq> ''SUBJ-'' @ subj_type d_overlap \<and>
   ex_tokens e_overlap ! 1 = 3 \<and>
   word2id C0 (''SUBJ-'' @ subj_type d_overlap) = Some 2"
  unfolding preprocess_overlap
  by (simp add: d_overlap_def e_overlap_def C0_def)

subsection \<open>What preprocess does to its input\<close>

text \<open>
  C9. With \<open>lower\<close> set, the token lists that the store held before the call are the same
  after it, whatever the records are and whether or not the call raises: the loop works
  on the fresh lists it makes. With \<open>lower\<close> unset, a call that returns has applied, record
  after record, the two slice assignments to the record's own token list in the store.
  When every record has its token list in the store and no two records share one, the
  store keeps its size, the list of a record \<open>r\<close> is the anonymized one, with the marker
  at every index of a span that lies inside the list, and every other list is as it was.
\<close>

theorem preprocess_frame:
  "take (length st) (snd (preprocess C True data st)) = st \<and>
   (fst (preprocess C False data st) = Inr processed \<longrightarrow>
      snd (preprocess C False data st) =
        foldl (\<lambda>s r. s[token r := anonymized r (s ! token r)]) st data \<and>
      (distinct (map token data) \<and> (\<forall>r\<in>set data. token r < length st) \<longrightarrow>
         length (snd (preprocess C False data st)) = length st \<and>
         (\<forall>a. a \<notin> token ` set data \<longrightarrow> snd (preprocess C False data st) ! a = st ! a) \<and>
         (\<forall>r\<in>set data.
            snd (preprocess C False data st) ! token r = anonymized r (st ! token r) \<and>
            (0 \<le> subj_start r \<and> subj_start r \<le> subj_end r \<and>
             subj_end r < int (length (st ! token r)) \<and>
             0 \<le> obj_start r \<and> obj_start r \<le> obj_end r \<and>
             obj_end r < int (length (st ! token r)) \<longrightarrow>
               length (snd (preprocess C False data st) ! token r) = length (st ! token r) \<and>
               (\<forall>i<length (st ! token r).
                  snd (preprocess C False data st) ! token r ! i =
                    (if obj_start r \<le> int i \<and> int i \<le> obj_end r then ''OBJ-'' @ obj_type r
                     else if subj_start r \<le> int i \<and> int i \<le> subj_end r
                          then ''SUBJ-'' @ subj_type r
                     else st ! token r ! i))))))"
proof (intro conjI impI)
  obtain new where "snd (preprocess C True data st) = st @ new"
    using preprocess_store_True by blast
  then show "take (length st) (snd (preprocess C True data st)) = st" by simp
next
  assume p: "fst (preprocess C False data st) = Inr processed"
  show f: "snd (preprocess C False data st) =
        foldl (\<lambda>s r. s[token r := anonymized r (s ! token r)]) st data"
    using p by (rule preprocess_store_False)
  assume v: "distinct (map token data) \<and> (\<forall>r\<in>set data. token r < length st)"
  show "length (snd (preprocess C False data st)) = length st"
    unfolding f by (rule foldl_update_length)
  show "\<forall>a. a \<notin> token ` set data \<longrightarrow> snd (preprocess C False data st) ! a = st ! a"
    unfolding f by (simp add: foldl_update_other)
  show "\<forall>r\<in>set data.
            snd (preprocess C False data st) ! token r = anonymized r (st ! token r) \<and>
            (0 \<le> subj_start r \<and> subj_start r \<le> subj_end r \<and>
             subj_end r < int (length (st ! token r)) \<and>
             0 \<le> obj_start r \<and> obj_start r \<le> obj_end r \<and>
             obj_end r < int (length (st ! token r)) \<longrightarrow>
               length (snd (preprocess C False data st) ! token r) = length (st ! token r) \<and>
               (\<forall>i<length (st ! token r).
                  snd (preprocess C False data st) ! token r ! i =
                    (if obj_start r \<le> int i \<and> int i \<le> obj_end r then ''OBJ-'' @ obj_type r
                     else if subj_start r \<le> int i \<and> int i \<le> subj_end r
                          then ''SUBJ-'' @ subj_type r
                     else st ! token r ! i)))"
  proof (intro ballI conjI impI)
    fix r
    assume r: "r \<in> set data"
    then have tr: "token r < length st" using v by simp
    show e: "snd (preprocess C False data st) ! token r = anonymized r (st ! token r)"
      unfolding f using v r tr by (simp add: foldl_update_distinct)
    assume s: "0 \<le> subj_start r \<and> subj_start r \<le> subj_end r \<and>
             subj_end r < int (length (st ! token r)) \<and>
             0 \<le> obj_start r \<and> obj_start r \<le> obj_end r \<and>
             obj_end r < int (length (st ! token r))"
    then have s': "0 \<le> subj_start r" "subj_start r \<le> subj_end r"
      "subj_end r < int (length (st ! token r))"
      "0 \<le> obj_start r" "obj_start r \<le> obj_end r" "obj_end r < int (length (st ! token r))"
      by simp_all
    show "length (snd (preprocess C False data st) ! token r) = length (st ! token r)"
      unfolding e using s' by (rule anonymized_nth(1))
    show "\<forall>i<length (st ! token r).
                  snd (preprocess C False data st) ! token r ! i =
                    (if obj_start r \<le> int i \<and> int i \<le> obj_end r then ''OBJ-'' @ obj_type r
                     else if subj_start r \<le> int i \<and> int i \<le> subj_end r
                          then ''SUBJ-'' @ subj_type r
                     else st ! token r ! i)"
      unfolding e using anonymized_nth(2) [OF s'] by blast
  qed
qed

theorem preprocess_frame_witness:
  "take (length st0) (snd (preprocess C0 True [d0, d2] st0)) = st0 \<and>
   fst (preprocess C0 False [d0, d2] st0) = Inr [e0\<lparr>ex_tokens := [2, 1, 5, 3]\<rparr>, e2] \<and>
   distinct (map token [d0, d2]) \<and> token d0 < length st0 \<and> token d2 < length st0 \<and>
   snd (preprocess C0 False [d0, d2] st0) =
     foldl (\<lambda>s r. s[token r := anonymized r (s ! token r)]) st0 [d0, d2] \<and>
   length (snd (preprocess C0 False [d0, d2] st0)) = length st0 \<and>
   snd (preprocess C0 False [d0, d2] st0) ! 1 = st0 ! 1 \<and>
   snd (preprocess C0 False [d0, d2] st0) ! token d0 = anonymized d0 (st0 ! token d0) \<and>
   snd (preprocess C0 False [d0, d2] st0) ! token d0 =
     [''SUBJ-PERSON'', ''Lives'', ''in'', ''OBJ-CITY''] \<and>
   snd (preprocess C0 False [d0, d2] st0) ! token d2 = [''SUBJ-PERSON'', ''OBJ-CITY''] \<and>
   st0 ! token d0 = [''Alice'', ''Lives'', ''in'', ''Paris'']"
proof -
  have p: "fst (preprocess C0 False [d0, d2] st0) = Inr [e0\<lparr>ex_tokens := [2, 1, 5, 3]\<rparr>, e2]"
    by (simp only: preprocess_in_place_example fst_conv)
  have v: "distinct (map token [d0, d2]) \<and> (\<forall>r\<in>set [d0, d2]. token r < length st0)"
    by (simp add: d0_def d2_def st0_def)
  note w = preprocess_frame [where st = st0 and C = C0 and data = "[d0, d2]"
      and processed = "[e0\<lparr>ex_tokens := [2, 1, 5, 3]\<rparr>, e2]"]
  have a: "take (length st0) (snd (preprocess C0 True [d0, d2] st0)) = st0"
    using w by (rule conjunct1)
  have b: "snd (preprocess C0 False [d0, d2] st0) =
     foldl (\<lambda>s r. s[token r := anonymized r (s ! token r)]) st0 [d0, d2]"
    using w p by blast
  have c: "length (snd (preprocess C0 False [d0, d2] st0)) = length st0"
    using w p v by blast
  have o: "\<forall>a. a \<notin> token ` set [d0, d2] \<longrightarrow>
      snd (preprocess C0 False [d0, d2] st0) ! a = st0 ! a"
    using w p v by blast
  have "1 \<notin> token ` set [d0, d2]" by (simp add: d0_def d2_def)
  then have o1: "snd (preprocess C0 False [d0, d2] st0) ! 1 = st0 ! 1" using o by blast
  have d: "snd (preprocess C0 False [d0, d2] st0) ! token d0 = anonymized d0 (st0 ! token d0)"
    using w p v by simp
  have v1: "distinct (map token [d0, d2])" using v by (rule conjunct1)
  have v2: "token d0 < length st0" "token d2 < length st0"
    by (simp_all add: d0_def d2_def st0_def)
  have r0: "snd (preprocess C0 False [d0, d2] st0) ! token d0 =
     [''SUBJ-PERSON'', ''Lives'', ''in'', ''OBJ-CITY'']"
    unfolding preprocess_in_place_example by (simp add: d0_def)
  have r2: "snd (preprocess C0 False [d0, d2] st0) ! token d2 = [''SUBJ-PERSON'', ''OBJ-CITY'']"
    unfolding preprocess_in_place_example by (simp add: d2_def)
  have s0: "st0 ! token d0 = [''Alice'', ''Lives'', ''in'', ''Paris'']"
    by (simp add: st0_def d0_def)
  show ?thesis
    by (intro conjI) (rule a p v1 v2 b c o1 d r0 r2 s0)+
qed

end
